theory Spec2Isabelle
  imports Complex_Main "HOL-Library.Char_ord" "HOL-Library.List_Lexorder" "HOL-Library.Log_Nat"
begin

section \<open>Data model (src/lib/db/indexedDB.ts)\<close>

text \<open>
  The \<open>PendingUpload\<close> interface (indexedDB.ts, lines 42-51). The union types of the
  fields \<open>type\<close> and \<open>status\<close> are datatypes; the \<open>File\<close> payload is opaque and
  stands as its name. Fields \<open>id\<close>, \<open>file\<close> and \<open>type\<close> carry the prefix \<open>upload_\<close>, since
  these names are taken in Isabelle. The optional \<open>error\<close> field holds the message of the
  \<open>Error\<close> object that was caught; messages are values of the datatype \<open>error\<close> below.
\<close>

datatype media_type = Image | Video

datatype upload_status = Pending | Uploading | Failed

datatype error =
    NotConnected              \<comment> \<open>\<open>ensureConnected\<close> (indexedDB.ts, line 160)\<close>
  | DuplicateKey string       \<comment> \<open>\<open>store.add\<close> on a key that exists (line 203)\<close>
  | NotFound string           \<comment> \<open>\<open>retryUpload\<close> (queue-manager.ts, line 253)\<close>
  | NetworkError string       \<comment> \<open>\<open>fetch\<close> rejected\<close>
  | UploadFailed nat          \<comment> \<open>response not ok, with its HTTP status (line 191)\<close>
  | RetriesFailed             \<comment> \<open>\<open>Operation failed after retries\<close> (retry.ts, line 74)\<close>

record PendingUpload =
  upload_id :: string
  upload_file :: string
  upload_type :: media_type
  status :: upload_status
  progress :: nat
  retryCount :: nat
  createdAt :: nat
  error :: "error option"

section \<open>The object store \<open>pendingUploads\<close>\<close>

text \<open>
  An IndexedDB object store with \<open>keyPath: 'id'\<close> holds at most one record per key and
  hands records out in key order; so does the index on \<open>status\<close> for one status value.
  The store is the list of its records in key order. \<open>idb_put\<close> is \<open>IDBObjectStore.put\<close>
  (insert or replace), \<open>idb_delete\<close> is \<open>IDBObjectStore.delete\<close> (no error on a missing
  key), \<open>idb_get\<close> is \<open>IDBObjectStore.get\<close> (\<open>undefined\<close> on a missing key is \<open>None\<close>).
\<close>

type_synonym object_store = "PendingUpload list"

fun idb_get :: "string \<Rightarrow> object_store \<Rightarrow> PendingUpload option" where
  "idb_get key [] = None"
| "idb_get key (x # xs) = (if upload_id x = key then Some x else idb_get key xs)"

fun idb_put :: "PendingUpload \<Rightarrow> object_store \<Rightarrow> object_store" where
  "idb_put r [] = [r]"
| "idb_put r (x # xs) =
     (if upload_id r = upload_id x then r # xs
      else if upload_id r < upload_id x then r # x # xs
      else x # idb_put r xs)"

definition idb_delete :: "string \<Rightarrow> object_store \<Rightarrow> object_store" where
  "idb_delete key xs = filter (\<lambda>x. upload_id x \<noteq> key) xs"

definition idb_index_getAll :: "upload_status \<Rightarrow> object_store \<Rightarrow> PendingUpload list" where
  "idb_index_getAll v xs = filter (\<lambda>x. status x = v) xs"

section \<open>JavaScript numbers\<close>

text \<open>
  A JavaScript number is an IEEE 754 double: a finite value, one of the two infinities,
  or NaN. \<open>Finite r\<close> is the double of value \<open>r\<close>; the two zeros are not told apart.
  The arithmetic of the language computes the exact result and rounds it to the nearest
  double, ties to the even significand; a result of magnitude \<open>2^1024\<close> or more after
  rounding is an infinity.
\<close>

datatype number = Finite real | PosInfinity | NegInfinity | NaN

text \<open>
  Rounding of a real to the nearest integer, ties to even.
\<close>

definition round_half_even :: "real \<Rightarrow> int" where
  "round_half_even x =
     (let f = \<lfloor>x\<rfloor>; d = x - of_int f
      in if d < 1 / 2 then f else if 1 / 2 < d then f + 1 else if even f then f else f + 1)"

text \<open>
  For \<open>a > 0\<close>, \<open>binade a\<close> is the exponent \<open>e\<close> with \<open>2^e \<le> a < 2^(e+1)\<close>. The doubles
  in that range are the multiples of \<open>2^(e - 52)\<close>; below \<open>2^(-1022)\<close> (the subnormal
  range) they are the multiples of \<open>2^(-1074)\<close>. \<open>nearest a\<close> is the multiple nearest to
  \<open>a\<close>.
\<close>

definition binade :: "real \<Rightarrow> int" where
  "binade a =
     (if 1 \<le> a then int (floorlog 2 (nat \<lfloor>a\<rfloor>)) - 1
      else - int (floorlog 2 (nat (\<lceil>1 / a\<rceil> - 1))))"

definition ulp_exponent :: "real \<Rightarrow> int" where
  "ulp_exponent a = max (binade a) (- 1022) - 52"

definition nearest :: "real \<Rightarrow> real" where
  "nearest a =
     of_int (round_half_even (a / power_int 2 (ulp_exponent a))) * power_int 2 (ulp_exponent a)"

definition round_double :: "real \<Rightarrow> number" where
  "round_double x =
     (if x = 0 then Finite 0
      else if power_int 2 1024 \<le> nearest \<bar>x\<bar> then (if 0 < x then PosInfinity else NegInfinity)
      else Finite (sgn x * nearest \<bar>x\<bar>))"

text \<open>
  The comparison \<open><=\<close> of the language: false as soon as one side is NaN.
\<close>

fun number_le :: "number \<Rightarrow> number \<Rightarrow> bool" where
  "number_le NaN b = False"
| "number_le a NaN = False"
| "number_le NegInfinity b = True"
| "number_le a PosInfinity = True"
| "number_le (Finite x) (Finite y) = (x \<le> y)"
| "number_le a b = False"

text \<open>
  The operators \<open>*\<close> and \<open>+\<close> and the function \<open>Math.min\<close> of two arguments.
\<close>

definition js_sign :: "number \<Rightarrow> int" where
  "js_sign a =
     (case a of Finite x \<Rightarrow> (if 0 < x then 1 else if x < 0 then - 1 else 0)
      | PosInfinity \<Rightarrow> 1 | NegInfinity \<Rightarrow> - 1 | NaN \<Rightarrow> 0)"

fun js_mul :: "number \<Rightarrow> number \<Rightarrow> number" where
  "js_mul NaN b = NaN"
| "js_mul a NaN = NaN"
| "js_mul (Finite x) (Finite y) = round_double (x * y)"
| "js_mul a b =
     (if js_sign a * js_sign b = 0 then NaN
      else if 0 < js_sign a * js_sign b then PosInfinity else NegInfinity)"

fun js_add :: "number \<Rightarrow> number \<Rightarrow> number" where
  "js_add NaN b = NaN"
| "js_add a NaN = NaN"
| "js_add (Finite x) (Finite y) = round_double (x + y)"
| "js_add (Finite x) b = b"
| "js_add a (Finite y) = a"
| "js_add a b = (if a = b then a else NaN)"

fun js_min :: "number \<Rightarrow> number \<Rightarrow> number" where
  "js_min NaN b = NaN"
| "js_min a NaN = NaN"
| "js_min a b = (if number_le a b then a else b)"

section \<open>Backoff and the retry helper (src/lib/retry.ts)\<close>

record RetryConfig =
  maxRetries :: int
  initialDelay :: number
  maxDelay :: number
  backoffFactor :: number

definition DEFAULT_RETRY_CONFIG :: RetryConfig where
  "DEFAULT_RETRY_CONFIG =
     \<lparr>maxRetries = 3, initialDelay = Finite 1000, maxDelay = Finite 10000,
      backoffFactor = Finite 2\<rparr>"

text \<open>
  \<open>calculateBackoffDelay\<close> (retry.ts, lines 190-204), in the arithmetic of the language.
  \<open>Math.pow\<close> is a parameter: the language leaves its precision to the engine. Its second
  argument is \<open>attempt - 1\<close>, an integer, as are \<open>maxRetries\<close> and the attempt counter.
  The value of \<open>Math.random()\<close>, a double in \<open>[0, 1)\<close>, is the argument \<open>rnd\<close>; the
  literal \<open>0.3\<close> is the double nearest to 3/10, and \<open>Math.random() * 0.3 * delay\<close>
  multiplies from the left.
\<close>

definition calculateBackoffDelay ::
  "(number \<Rightarrow> int \<Rightarrow> number) \<Rightarrow> real \<Rightarrow> int \<Rightarrow> number \<Rightarrow> number \<Rightarrow> number \<Rightarrow> number" where
  "calculateBackoffDelay pow rnd attempt initDelay maxDel factor =
     (let delay = js_mul initDelay (pow factor (attempt - 1));
          jitter = js_mul (js_mul (Finite rnd) (round_double (3 / 10))) delay
      in js_min (js_add delay jitter) maxDel)"

text \<open>
  \<open>retryWithBackoff\<close> (retry.ts, lines 35-75). The operation is a state transformer that
  returns the value of the promise (\<open>Inr\<close>) or the error it rejects with (\<open>Inl\<close>).
  \<open>Math.pow\<close>, \<open>Math.random\<close> and \<open>sleep\<close> are parameters; the last two act on the
  same state. The \<open>while\<close>
  loop is \<open>retry_loop\<close>; \<open>attempt\<close> and \<open>lastError\<close> are its two local variables.
\<close>

function retry_loop ::
  "(number \<Rightarrow> int \<Rightarrow> number) \<Rightarrow> ('s \<Rightarrow> real \<times> 's) \<Rightarrow> (number \<Rightarrow> 's \<Rightarrow> 's) \<Rightarrow> RetryConfig
     \<Rightarrow> ('s \<Rightarrow> (error + 'a) \<times> 's) \<Rightarrow> int \<Rightarrow> error option \<Rightarrow> 's \<Rightarrow> (error + 'a) \<times> 's" where
  "retry_loop pow rand sleep cfg operation attempt lastError s =
     (if attempt \<le> maxRetries cfg then
        (case operation s of
           (Inr result, s1) \<Rightarrow> (Inr result, s1)
         | (Inl err, s1) \<Rightarrow>
             (if attempt + 1 > maxRetries cfg then (Inl err, s1)
              else
                (case rand s1 of
                   (r, s2) \<Rightarrow>
                     retry_loop pow rand sleep cfg operation (attempt + 1) (Some err)
                       (sleep
                          (calculateBackoffDelay pow r (attempt + 1) (initialDelay cfg)
                             (maxDelay cfg) (backoffFactor cfg))
                          s2))))
      else (Inl (case lastError of Some e \<Rightarrow> e | None \<Rightarrow> RetriesFailed), s))"
  by pat_completeness auto
termination
  by (relation "measure (\<lambda>(pow, rand, sleep, cfg, operation, attempt, lastError, s).
        nat (maxRetries cfg + 1 - attempt))") auto

declare retry_loop.simps [simp del]

text \<open>
  The second argument of \<open>retryWithBackoff\<close> is a \<open>Partial<RetryConfig>\<close>: a field that
  is absent takes its value from \<open>DEFAULT_RETRY_CONFIG\<close> (retry.ts, lines 39-42).
\<close>

record PartialRetryConfig =
  maxRetries_opt :: "int option"
  initialDelay_opt :: "number option"
  maxDelay_opt :: "number option"
  backoffFactor_opt :: "number option"

definition finalConfig :: "PartialRetryConfig \<Rightarrow> RetryConfig" where
  "finalConfig config =
     \<lparr>maxRetries =
        (case maxRetries_opt config of Some v \<Rightarrow> v | None \<Rightarrow> maxRetries DEFAULT_RETRY_CONFIG),
      initialDelay =
        (case initialDelay_opt config of Some v \<Rightarrow> v
         | None \<Rightarrow> initialDelay DEFAULT_RETRY_CONFIG),
      maxDelay =
        (case maxDelay_opt config of Some v \<Rightarrow> v | None \<Rightarrow> maxDelay DEFAULT_RETRY_CONFIG),
      backoffFactor =
        (case backoffFactor_opt config of Some v \<Rightarrow> v
         | None \<Rightarrow> backoffFactor DEFAULT_RETRY_CONFIG)\<rparr>"

definition retryWithBackoff ::
  "(number \<Rightarrow> int \<Rightarrow> number) \<Rightarrow> ('s \<Rightarrow> real \<times> 's) \<Rightarrow> (number \<Rightarrow> 's \<Rightarrow> 's)
     \<Rightarrow> ('s \<Rightarrow> (error + 'a) \<times> 's) \<Rightarrow> PartialRetryConfig \<Rightarrow> 's \<Rightarrow> (error + 'a) \<times> 's" where
  "retryWithBackoff pow rand sleep operation config s =
     retry_loop pow rand sleep (finalConfig config) operation 0 None s"

section \<open>The state of the page\<close>

text \<open>
  What the queue manager reads and writes: the default \<open>IndexedDBWrapper\<close> instance and
  the object store behind it, the fields of the \<open>QueueManager\<close> singleton,
  \<open>navigator.onLine\<close>, and a trace of what the outside can observe (requests sent, delays
  slept, callbacks invoked, writes to the store). A progress callback is known by a
  number; what it does with the record it receives stays outside, and an exception it
  throws is caught by \<open>notifyProgress\<close> (queue-manager.ts, lines 236-240).

  A call of the asynchronous \<open>processQueue\<close> that has passed its two guards runs on
  between the other tasks of the event loop. Such a drain pass is kept in the field
  \<open>drains\<close> with the place it is suspended at: before the list of pending uploads is
  read (\<open>Starting\<close>), at the head of the \<open>for\<close> loop with the uploads still to process
  (\<open>Iterating\<close>), or inside \<open>processUpload\<close> while the transfer of one upload is
  awaited (\<open>Transferring\<close>).
\<close>

datatype fetch_result = Rejected string | Response nat

datatype event =
    Fetched string
  | Slept number
  | Notified nat PendingUpload
  | DbAdd PendingUpload
  | DbPut PendingUpload
  | DbDelete string
  | DbClear

datatype pass =
    Starting
  | Iterating "PendingUpload list"
  | Transferring PendingUpload "PendingUpload list"

record world =
  db_connected :: bool
  pendingUploads :: object_store
  isProcessing :: bool
  progressCallbacks :: "nat list"
  onlineListener :: bool
  onLine :: bool
  fetchCount :: nat
  randomCount :: nat
  drains :: "pass list"
  trace :: "event list"

text \<open>
  The outside: the outcome of the \<open>k\<close>-th call of \<open>fetch\<close>, the value of the \<open>k\<close>-th
  call of \<open>Math.random\<close>, and the engine's \<open>Math.pow\<close>.
\<close>

record environment =
  net_fetch :: "nat \<Rightarrow> fetch_result"
  math_random :: "nat \<Rightarrow> real"
  math_pow :: "number \<Rightarrow> int \<Rightarrow> number"

section \<open>The IndexedDB wrapper (src/lib/db/indexedDB.ts)\<close>

text \<open>
  \<open>getDB\<close> (lines 405-411) creates and connects the default instance on first use;
  \<open>indexedDB.open\<close> is taken to succeed, and the connection is made in one step (no
  other task runs while the database is being opened). Every method of the wrapper goes through
  \<open>ensureConnected\<close> (lines 158-162) first. Of the \<open>onerror\<close> handlers of the requests,
  the one of \<open>add\<close> is modelled, for a key that exists already; the other requests
  succeed on an open database. Each write is recorded in the trace.
\<close>

definition getDB :: "world \<Rightarrow> world" where
  "getDB w = w\<lparr>db_connected := True\<rparr>"

definition db_add :: "PendingUpload \<Rightarrow> world \<Rightarrow> (error + string) \<times> world" where
  "db_add data w =
     (if \<not> db_connected w then (Inl NotConnected, w)
      else
        (case idb_get (upload_id data) (pendingUploads w) of
           Some existing \<Rightarrow> (Inl (DuplicateKey (upload_id data)), w)
         | None \<Rightarrow>
             (Inr (upload_id data),
              w\<lparr>pendingUploads := idb_put data (pendingUploads w),
                trace := trace w @ [DbAdd data]\<rparr>)))"

definition db_get :: "string \<Rightarrow> world \<Rightarrow> error + PendingUpload option" where
  "db_get key w =
     (if \<not> db_connected w then Inl NotConnected else Inr (idb_get key (pendingUploads w)))"

definition db_update :: "PendingUpload \<Rightarrow> world \<Rightarrow> (error + string) \<times> world" where
  "db_update data w =
     (if \<not> db_connected w then (Inl NotConnected, w)
      else
        (Inr (upload_id data),
         w\<lparr>pendingUploads := idb_put data (pendingUploads w),
           trace := trace w @ [DbPut data]\<rparr>))"

definition db_delete :: "string \<Rightarrow> world \<Rightarrow> (error + unit) \<times> world" where
  "db_delete key w =
     (if \<not> db_connected w then (Inl NotConnected, w)
      else
        (Inr (),
         w\<lparr>pendingUploads := idb_delete key (pendingUploads w),
           trace := trace w @ [DbDelete key]\<rparr>))"

definition db_getAll :: "world \<Rightarrow> error + PendingUpload list" where
  "db_getAll w = (if \<not> db_connected w then Inl NotConnected else Inr (pendingUploads w))"

definition db_getByIndex :: "upload_status \<Rightarrow> world \<Rightarrow> error + PendingUpload list" where
  "db_getByIndex v w =
     (if \<not> db_connected w then Inl NotConnected
      else Inr (idb_index_getAll v (pendingUploads w)))"

definition db_clear :: "world \<Rightarrow> (error + unit) \<times> world" where
  "db_clear w =
     (if \<not> db_connected w then (Inl NotConnected, w)
      else (Inr (), w\<lparr>pendingUploads := [], trace := trace w @ [DbClear]\<rparr>))"

section \<open>The queue manager (src/lib/sw/queue-manager.ts)\<close>

definition init :: "world \<Rightarrow> world" where
  "init w = (if onlineListener w then w else w\<lparr>onlineListener := True\<rparr>)"

definition cleanup :: "world \<Rightarrow> world" where
  "cleanup w = (if onlineListener w then w\<lparr>onlineListener := False\<rparr> else w)"

definition onProgress :: "nat \<Rightarrow> world \<Rightarrow> world" where
  "onProgress callback w = w\<lparr>progressCallbacks := progressCallbacks w @ [callback]\<rparr>"

definition unsubscribe :: "nat \<Rightarrow> world \<Rightarrow> world" where
  "unsubscribe callback w = w\<lparr>progressCallbacks := remove1 callback (progressCallbacks w)\<rparr>"

definition notifyProgress :: "PendingUpload \<Rightarrow> world \<Rightarrow> world" where
  "notifyProgress upload w =
     w\<lparr>trace := trace w @ map (\<lambda>callback. Notified callback upload) (progressCallbacks w)\<rparr>"

text \<open>\<open>uploadFile\<close> (lines 217-228): one call of \<open>fetch\<close>; the response comes back as it is.\<close>

definition uploadFile :: "environment \<Rightarrow> PendingUpload \<Rightarrow> world \<Rightarrow> (error + nat) \<times> world" where
  "uploadFile env upload w =
     ((case net_fetch env (fetchCount w) of
         Rejected msg \<Rightarrow> Inl (NetworkError msg)
       | Response code \<Rightarrow> Inr code),
      w\<lparr>fetchCount := Suc (fetchCount w), trace := trace w @ [Fetched (upload_id upload)]\<rparr>)"

definition response_ok :: "nat \<Rightarrow> bool" where
  "response_ok code = (200 \<le> code \<and> code \<le> 299)"

definition world_random :: "environment \<Rightarrow> world \<Rightarrow> real \<times> world" where
  "world_random env w = (math_random env (randomCount w), w\<lparr>randomCount := Suc (randomCount w)\<rparr>)"

definition world_sleep :: "number \<Rightarrow> world \<Rightarrow> world" where
  "world_sleep ms w = w\<lparr>trace := trace w @ [Slept ms]\<rparr>"

definition upload_retry_config :: PartialRetryConfig where
  "upload_retry_config =
     \<lparr>maxRetries_opt = Some 3, initialDelay_opt = Some (Finite 1000),
      maxDelay_opt = Some (Finite 10000), backoffFactor_opt = Some (Finite 2)\<rparr>"

text \<open>
  \<open>processUpload\<close> (lines 159-210) in its three blocks: the statements before the \<open>try\<close>
  (lines 160-165), the body of the \<open>try\<close> (lines 168-192) and the \<open>catch\<close> clause
  (lines 194-208). The parameter \<open>upload\<close> is the object the blocks mutate; each block
  takes it as it stands when the block is entered. Whatever reaches the \<open>catch\<close> clause
  is an \<open>Error\<close> object, so line 197 stores its message. The configuration of line 173
  is \<open>upload_retry_config\<close>.
\<close>

definition processUpload_begin :: "PendingUpload \<Rightarrow> world \<Rightarrow> (error + PendingUpload) \<times> world" where
  "processUpload_begin upload w =
     (let upload1 = upload\<lparr>status := Uploading\<rparr> in
      (case db_update upload1 (getDB w) of
         (Inl e, w1) \<Rightarrow> (Inl e, w1)
       | (Inr key, w1) \<Rightarrow> (Inr upload1, notifyProgress upload1 w1)))"

definition processUpload_try ::
  "environment \<Rightarrow> PendingUpload \<Rightarrow> world \<Rightarrow> (error + unit) \<times> world" where
  "processUpload_try env upload w =
     (case retryWithBackoff (math_pow env) (world_random env) world_sleep (uploadFile env upload)
             upload_retry_config w of
        (Inl e, w1) \<Rightarrow> (Inl e, w1)
      | (Inr response, w1) \<Rightarrow>
          (if response_ok response then
             (case db_delete (upload_id upload) w1 of
                (Inl e, w2) \<Rightarrow> (Inl e, w2)
              | (Inr u, w2) \<Rightarrow>
                  (Inr (), notifyProgress (upload\<lparr>status := Pending, progress := 100\<rparr>) w2))
           else (Inl (UploadFailed response), w1)))"

definition processUpload_catch ::
  "error \<Rightarrow> PendingUpload \<Rightarrow> world \<Rightarrow> (error + unit) \<times> world" where
  "processUpload_catch err upload w =
     (let upload2 = upload\<lparr>status := Failed, retryCount := retryCount upload + 1,
                          error := Some err\<rparr> in
      (case db_update upload2 w of
         (Inl e, w1) \<Rightarrow> (Inl e, w1)
       | (Inr key, w1) \<Rightarrow>
           (let w2 = notifyProgress upload2 w1 in
            if retryCount upload2 \<ge> 5 then db_delete (upload_id upload2) w2
            else (Inr (), w2))))"

definition processUpload_settle ::
  "environment \<Rightarrow> PendingUpload \<Rightarrow> world \<Rightarrow> (error + unit) \<times> world" where
  "processUpload_settle env upload w =
     (case processUpload_try env upload w of
        (Inr u, w1) \<Rightarrow> (Inr (), w1)
      | (Inl err, w1) \<Rightarrow> processUpload_catch err upload w1)"

definition processUpload :: "environment \<Rightarrow> PendingUpload \<Rightarrow> world \<Rightarrow> (error + unit) \<times> world" where
  "processUpload env upload w =
     (case processUpload_begin upload w of
        (Inl e, w1) \<Rightarrow> (Inl e, w1)
      | (Inr upload1, w1) \<Rightarrow> processUpload_settle env upload1 w1)"

text \<open>
  \<open>processQueue\<close> (lines 116-153), run from its call to its end with no other task in
  between. An error of \<open>processUpload\<close> is caught inside the loop (line 144), an error of
  the listing outside it (line 148); \<open>finally\<close> clears the flag.
\<close>

definition processQueue :: "environment \<Rightarrow> world \<Rightarrow> world" where
  "processQueue env w =
     (if isProcessing w then w
      else if \<not> onLine w then w
      else
        (let w1 = getDB (w\<lparr>isProcessing := True\<rparr>) in
         (case db_getByIndex Pending w1 of
            Inl e \<Rightarrow> w1
          | Inr uploads \<Rightarrow> fold (\<lambda>upload w2. snd (processUpload env upload w2)) uploads w1)
         \<lparr>isProcessing := False\<rparr>))"

text \<open>
  The same function as the event loop runs it. \<open>processQueue_call\<close> is the part that runs
  inside the caller's task, up to the first \<open>await\<close> (lines 116-132): the two guards and
  the assignment of the flag. \<open>pass_step\<close> resumes a suspended pass until its next
  suspension; \<open>None\<close> says that the pass has left \<open>processQueue\<close> through \<open>finally\<close>.
\<close>

definition processQueue_call :: "world \<Rightarrow> world" where
  "processQueue_call w =
     (if isProcessing w then w
      else if \<not> onLine w then w
      else w\<lparr>isProcessing := True, drains := drains w @ [Starting]\<rparr>)"

fun pass_step :: "environment \<Rightarrow> pass \<Rightarrow> world \<Rightarrow> pass option \<times> world" where
  "pass_step env Starting w =
     (let w1 = getDB w in
      (case db_getByIndex Pending w1 of
         Inl e \<Rightarrow> (None, w1\<lparr>isProcessing := False\<rparr>)
       | Inr uploads \<Rightarrow> (Some (Iterating uploads), w1)))"
| "pass_step env (Iterating []) w = (None, w\<lparr>isProcessing := False\<rparr>)"
| "pass_step env (Iterating (upload # rest)) w =
     (case processUpload_begin upload w of
        (Inl e, w1) \<Rightarrow> (Some (Iterating rest), w1)
      | (Inr upload1, w1) \<Rightarrow> (Some (Transferring upload1 rest), w1))"
| "pass_step env (Transferring upload1 rest) w =
     (Some (Iterating rest), snd (processUpload_settle env upload1 w))"

text \<open>
  The public operations. Where the source calls \<open>this.processQueue()\<close> without awaiting
  it, the model takes the effect of that call as the parameter \<open>trigger\<close>.
\<close>

definition addToQueue ::
  "(world \<Rightarrow> world) \<Rightarrow> string \<Rightarrow> nat \<Rightarrow> string \<Rightarrow> media_type \<Rightarrow> world \<Rightarrow> (error + string) \<times> world" where
  "addToQueue trigger uuid now f t w =
     (let upload = \<lparr>upload_id = uuid, upload_file = f, upload_type = t, status = Pending,
                     progress = 0, retryCount = 0, createdAt = now, error = None\<rparr> in
      (case db_add upload (getDB w) of
         (Inl e, w1) \<Rightarrow> (Inl e, w1)
       | (Inr key, w1) \<Rightarrow> (Inr (upload_id upload), if onLine w1 then trigger w1 else w1)))"

definition retryUpload :: "(world \<Rightarrow> world) \<Rightarrow> string \<Rightarrow> world \<Rightarrow> (error + unit) \<times> world" where
  "retryUpload trigger uploadId w =
     (let w1 = getDB w in
      (case db_get uploadId w1 of
         Inl e \<Rightarrow> (Inl e, w1)
       | Inr None \<Rightarrow> (Inl (NotFound uploadId), w1)
       | Inr (Some upload) \<Rightarrow>
           (case db_update (upload\<lparr>status := Pending, error := None\<rparr>) w1 of
              (Inl e, w2) \<Rightarrow> (Inl e, w2)
            | (Inr key, w2) \<Rightarrow> (Inr (), trigger w2))))"

definition cancelUpload :: "string \<Rightarrow> world \<Rightarrow> (error + unit) \<times> world" where
  "cancelUpload uploadId w = db_delete uploadId (getDB w)"

definition getPendingUploads :: "world \<Rightarrow> (error + PendingUpload list) \<times> world" where
  "getPendingUploads w = (db_getAll (getDB w), getDB w)"

definition getFailedUploads :: "world \<Rightarrow> (error + PendingUpload list) \<times> world" where
  "getFailedUploads w = (db_getByIndex Failed (getDB w), getDB w)"

fun retryAllFailed_loop :: "PendingUpload list \<Rightarrow> world \<Rightarrow> (error + unit) \<times> world" where
  "retryAllFailed_loop [] w = (Inr (), w)"
| "retryAllFailed_loop (upload # rest) w =
     (case db_update (upload\<lparr>status := Pending, error := None\<rparr>) (getDB w) of
        (Inl e, w1) \<Rightarrow> (Inl e, w1)
      | (Inr key, w1) \<Rightarrow> retryAllFailed_loop rest w1)"

definition retryAllFailed :: "(world \<Rightarrow> world) \<Rightarrow> world \<Rightarrow> (error + unit) \<times> world" where
  "retryAllFailed trigger w =
     (case getFailedUploads w of
        (Inl e, w1) \<Rightarrow> (Inl e, w1)
      | (Inr failedUploads, w1) \<Rightarrow>
          (case retryAllFailed_loop failedUploads w1 of
             (Inl e, w2) \<Rightarrow> (Inl e, w2)
           | (Inr u, w2) \<Rightarrow> (Inr (), trigger w2)))"

definition clearQueue :: "world \<Rightarrow> (error + unit) \<times> world" where
  "clearQueue w = db_clear (getDB w)"

record QueueStatus =
  total :: nat
  pending :: nat
  uploading :: nat
  failed :: nat

definition getQueueStatus :: "world \<Rightarrow> (error + QueueStatus) \<times> world" where
  "getQueueStatus w =
     (case db_getAll (getDB w) of
        Inl e \<Rightarrow> (Inl e, getDB w)
      | Inr allUploads \<Rightarrow>
          (Inr \<lparr>total = length allUploads,
                pending = length (filter (\<lambda>u. status u = Pending) allUploads),
                uploading = length (filter (\<lambda>u. status u = Uploading) allUploads),
                failed = length (filter (\<lambda>u. status u = Failed) allUploads)\<rparr>,
           getDB w))"

section \<open>The event loop\<close>

text \<open>
  What can happen to the page, one task at a time: a call of a public operation, the
  browser's \<open>online\<close> and \<open>offline\<close> events, and the resumption of the \<open>k\<close>-th suspended
  drain pass. The \<open>online\<close> event runs the listener that \<open>init\<close> registered (lines 45-48).
  Every call of \<open>this.processQueue()\<close> inside an operation is \<open>processQueue_call\<close>.
\<close>

datatype action =
    CallProcessQueue
  | OnlineEvent
  | OfflineEvent
  | CallInit
  | CallAddToQueue string nat string media_type
  | CallRetryUpload string
  | CallRetryAllFailed
  | CallCancelUpload string
  | CallClearQueue
  | CallOnProgress nat
  | CallUnsubscribe nat
  | Resume nat

fun step :: "environment \<Rightarrow> action \<Rightarrow> world \<Rightarrow> world" where
  "step env CallProcessQueue w = processQueue_call w"
| "step env OnlineEvent w =
     (let w1 = w\<lparr>onLine := True\<rparr> in if onlineListener w1 then processQueue_call w1 else w1)"
| "step env OfflineEvent w = w\<lparr>onLine := False\<rparr>"
| "step env CallInit w = init w"
| "step env (CallAddToQueue uuid now f t) w = snd (addToQueue processQueue_call uuid now f t w)"
| "step env (CallRetryUpload uploadId) w = snd (retryUpload processQueue_call uploadId w)"
| "step env CallRetryAllFailed w = snd (retryAllFailed processQueue_call w)"
| "step env (CallCancelUpload uploadId) w = snd (cancelUpload uploadId w)"
| "step env CallClearQueue w = snd (clearQueue w)"
| "step env (CallOnProgress callback) w = onProgress callback w"
| "step env (CallUnsubscribe callback) w = unsubscribe callback w"
| "step env (Resume k) w =
     (if k < length (drains w) then
        (case pass_step env (drains w ! k) w of
           (None, w1) \<Rightarrow> w1\<lparr>drains := take k (drains w1) @ drop (Suc k) (drains w1)\<rparr>
         | (Some p, w1) \<Rightarrow> w1\<lparr>drains := (drains w1)[k := p]\<rparr>)
      else w)"

definition run :: "environment \<Rightarrow> action list \<Rightarrow> world \<Rightarrow> world" where
  "run env actions w = fold (step env) actions w"

section \<open>Counting the calls of an operation\<close>

text \<open>
  To speak about how often \<open>retryWithBackoff\<close> calls its operation, the operation is run
  on a state that carries, beside its own state, the list of the results of its calls so
  far: \<open>logged operation\<close> appends the result of each call. \<open>Math.random\<close> and \<open>sleep\<close>
  leave the list alone.
\<close>

definition logged :: "('s \<Rightarrow> 'r \<times> 's) \<Rightarrow> 'r list \<times> 's \<Rightarrow> 'r \<times> 'r list \<times> 's" where
  "logged operation = (\<lambda>(calls, s). case operation s of (r, s1) \<Rightarrow> (r, calls @ [r], s1))"

definition aside_random :: "('s \<Rightarrow> real \<times> 's) \<Rightarrow> 'l \<times> 's \<Rightarrow> real \<times> 'l \<times> 's" where
  "aside_random rand = (\<lambda>(calls, s). case rand s of (r, s1) \<Rightarrow> (r, calls, s1))"

definition aside_sleep :: "(number \<Rightarrow> 's \<Rightarrow> 's) \<Rightarrow> number \<Rightarrow> 'l \<times> 's \<Rightarrow> 'l \<times> 's" where
  "aside_sleep sleep ms = (\<lambda>(calls, s). (calls, sleep ms s))"

section \<open>What a transfer leaves alone\<close>

text \<open>
  The part of the state that neither \<open>fetch\<close> nor \<open>Math.random\<close> nor \<open>sleep\<close> touches.
\<close>

definition frame :: "world \<Rightarrow> bool \<times> object_store \<times> bool \<times> nat list \<times> bool \<times> bool \<times> pass list" where
  "frame w = (db_connected w, pendingUploads w, isProcessing w, progressCallbacks w,
               onlineListener w, onLine w, drains w)"

section \<open>A sample page\<close>

text \<open>
  One queued photo, a page that is online with an open database, an idle queue manager
  and one progress callback (number 7); and three networks: one where \<open>fetch\<close> always
  rejects, one where the server always answers 503, one where it always answers 200.
  \<open>Math.random\<close> returns 0. The engine's \<open>Math.pow\<close> is \<open>pow_rounded\<close>, which rounds
  the exact power to the nearest double.
\<close>

definition pow_rounded :: "number \<Rightarrow> int \<Rightarrow> number" where
  "pow_rounded a n =
     (if n = 0 then Finite 1
      else
        (case a of
           NaN \<Rightarrow> NaN
         | Finite x \<Rightarrow> (if x = 0 \<and> n < 0 then PosInfinity else round_double (power_int x n))
         | PosInfinity \<Rightarrow> (if 0 < n then PosInfinity else Finite 0)
         | NegInfinity \<Rightarrow>
             (if 0 < n then (if even n then PosInfinity else NegInfinity) else Finite 0)))"


definition example_upload :: "upload_status \<Rightarrow> nat \<Rightarrow> PendingUpload" where
  "example_upload st n =
     \<lparr>upload_id = ''u1'', upload_file = ''photo.jpg'', upload_type = Image, status = st,
      progress = 0, retryCount = n, createdAt = 0, error = None\<rparr>"

definition example_world :: "object_store \<Rightarrow> world" where
  "example_world store =
     \<lparr>db_connected = True, pendingUploads = store, isProcessing = False,
      progressCallbacks = [7], onlineListener = True, onLine = True, fetchCount = 0,
      randomCount = 0, drains = [], trace = []\<rparr>"

definition env_unreachable :: environment where
  "env_unreachable =
     \<lparr>net_fetch = (\<lambda>k. Rejected ''Failed to fetch''), math_random = (\<lambda>k. 0),
      math_pow = pow_rounded\<rparr>"

definition env_server_error :: environment where
  "env_server_error = \<lparr>net_fetch = (\<lambda>k. Response 503), math_random = (\<lambda>k. 0),
      math_pow = pow_rounded\<rparr>"

definition env_ok :: environment where
  "env_ok = \<lparr>net_fetch = (\<lambda>k. Response 200), math_random = (\<lambda>k. 0),
      math_pow = pow_rounded\<rparr>"

section \<open>Single flight\<close>

text \<open>
  \<open>guard\<close> is what a call made while a drain pass is running must leave alone: the flag,
  the suspended passes and the number of requests sent. \<open>single_flight\<close> says that at
  most one pass is suspended and that the flag is set exactly while one is.
\<close>

definition guard :: "world \<Rightarrow> bool \<times> pass list \<times> nat" where
  "guard w = (isProcessing w, drains w, fetchCount w)"

definition single_flight :: "world \<Rightarrow> bool" where
  "single_flight w = (length (drains w) \<le> 1 \<and> (isProcessing w \<longleftrightarrow> drains w \<noteq> []))"

section \<open>Records a drain pass does not touch\<close>

text \<open>
  \<open>untouched i w w1\<close>: from \<open>w\<close> to \<open>w1\<close> the record stored under the key \<open>i\<close> is the
  same, the trace has only grown, and no request for \<open>i\<close> is among the new events.
\<close>

definition untouched :: "string \<Rightarrow> world \<Rightarrow> world \<Rightarrow> bool" where
  "untouched i w w1 =
     (idb_get i (pendingUploads w1) = idb_get i (pendingUploads w)
      \<and> take (length (trace w)) (trace w1) = trace w
      \<and> Fetched i \<notin> set (drop (length (trace w)) (trace w1)))"

section \<open>Rounding to the nearest double\<close>

lemma binade_bounds:
  assumes "0 < a"
  shows "power_int 2 (binade a) \<le> a \<and> a < power_int 2 (binade a + 1)"
proof (cases "1 \<le> a")
  case True
  define n where "n = nat \<lfloor>a\<rfloor>"
  define k where "k = floorlog 2 n"
  have n: "0 < n" "real n \<le> a" "a < real n + 1"
    using True by (auto simp: n_def)
  from floorlog_bounds [of n 2] n(1) have b: "2 ^ (k - 1) \<le> n" "n < 2 ^ k"
    by (simp_all add: k_def)
  have k: "1 \<le> k" using n(1) by (simp add: k_def floorlog_def)
  have e: "binade a = int k - 1" using True by (simp add: binade_def n_def k_def)
  have "(2::real) ^ (k - 1) = real (2 ^ (k - 1))" by simp
  also have "\<dots> \<le> real n" using b(1) by (simp only: of_nat_le_iff)
  finally have lo: "(2::real) ^ (k - 1) \<le> a" using n(2) by linarith
  have "n + 1 \<le> 2 ^ k" using b(2) by simp
  then have "real (n + 1) \<le> real (2 ^ k)" by (simp only: of_nat_le_iff)
  also have "real (2 ^ k) = (2::real) ^ k" by simp
  finally have hi: "a < (2::real) ^ k" using n(3) by simp
  have p1: "power_int (2::real) (int k - 1) = 2 ^ (k - 1)"
    using k by (simp add: power_int_def nat_diff_distrib)
  have p2: "power_int (2::real) (int k - 1 + 1) = 2 ^ k"
    by (simp add: power_int_def)
  show ?thesis unfolding e p1 p2 using lo hi by simp
next
  case False
  define y where "y = 1 / a"
  define m where "m = nat (\<lceil>y\<rceil> - 1)"
  define k where "k = floorlog 2 m"
  have y: "1 < y" using False assms by (simp add: y_def)
  then have c: "2 \<le> \<lceil>y\<rceil>" by linarith
  have m: "0 < m" "real m < y" "y \<le> real m + 1"
    using c by (auto simp: m_def) linarith
  from floorlog_bounds [of m 2] m(1) have b: "2 ^ (k - 1) \<le> m" "m < 2 ^ k"
    by (simp_all add: k_def)
  have k: "1 \<le> k" using m(1) by (simp add: k_def floorlog_def)
  have e: "binade a = - int k" using False by (simp add: binade_def m_def k_def y_def)
  have "(2::real) ^ (k - 1) = real (2 ^ (k - 1))" by simp
  also have "\<dots> \<le> real m" using b(1) by (simp only: of_nat_le_iff)
  finally have lo: "(2::real) ^ (k - 1) < y" using m(2) by linarith
  have "m + 1 \<le> 2 ^ k" using b(2) by simp
  then have "real (m + 1) \<le> real (2 ^ k)" by (simp only: of_nat_le_iff)
  also have "real (2 ^ k) = (2::real) ^ k" by simp
  finally have hi: "y \<le> (2::real) ^ k" using m(3) by simp
  have a: "a = 1 / y" using assms by (simp add: y_def)
  have p1: "power_int (2::real) (- int k) = 1 / 2 ^ k"
    by (simp add: power_int_def field_simps)
  have p2: "power_int (2::real) (- int k + 1) = 1 / 2 ^ (k - 1)"
    using k by (simp add: power_int_def field_simps nat_diff_distrib flip: power_Suc)
  have "1 / 2 ^ k \<le> 1 / y" using hi y by (intro divide_left_mono) simp_all
  moreover have "1 / y < 1 / 2 ^ (k - 1)"
    using lo y by (intro divide_strict_left_mono) (simp_all add: zero_less_mult_iff)
  ultimately have "1 / 2 ^ k \<le> a" "a < 1 / 2 ^ (k - 1)" using a by simp_all
  then show ?thesis unfolding e p1 p2 by simp
qed

lemma round_half_even_ge: "of_int m \<le> x \<Longrightarrow> m \<le> round_half_even x"
proof -
  assume "of_int m \<le> x"
  then have "m \<le> \<lfloor>x\<rfloor>" by (simp add: le_floor_iff)
  then show ?thesis by (auto simp: round_half_even_def Let_def)
qed

lemma round_half_even_le: "x \<le> of_int M \<Longrightarrow> round_half_even x \<le> M"
proof (cases "x = of_int M")
  case True
  then show ?thesis by (simp add: round_half_even_def Let_def)
next
  case False
  assume "x \<le> of_int M"
  with False have "x < of_int M" by simp
  then have "\<lfloor>x\<rfloor> < M" by (simp add: floor_less_iff)
  then show ?thesis by (auto simp: round_half_even_def Let_def)
qed



lemma nearest_ge_pow:
  assumes "0 < s" and "- 1022 \<le> binade s"
  shows "power_int 2 (binade s) \<le> nearest s"
proof -
  have ps: "ulp_exponent s = binade s - 52" using assms(2) by (simp add: ulp_exponent_def)
  have S52: "power_int (2::real) (binade s) = 2 ^ 52 * power_int 2 (binade s - 52)"
    using power_int_add [of "2::real" 52 "binade s - 52"] by simp
  have "power_int 2 (binade s) \<le> s" using binade_bounds [OF assms(1)] by simp
  then have "of_int (2 ^ 52) \<le> s / power_int 2 (binade s - 52)"
    unfolding S52 by (simp add: field_simps)
  then have "2 ^ 52 \<le> round_half_even (s / power_int 2 (binade s - 52))"
    by (rule round_half_even_ge)
  then have "(of_int (2 ^ 52) :: real) \<le> of_int (round_half_even (s / power_int 2 (binade s - 52)))"
    by (simp only: of_int_le_iff)
  then have "of_int (2 ^ 52) * power_int 2 (binade s - 52) \<le> nearest s"
    unfolding nearest_def ps by (intro mult_right_mono) simp_all
  then show ?thesis using S52 by simp
qed




lemma binade_less:
  assumes "0 < a" and "a < power_int 2 k"
  shows "binade a < k"
proof (rule ccontr)
  assume "\<not> binade a < k"
  then have "power_int (2::real) k \<le> power_int 2 (binade a)"
    by (intro power_int_increasing) simp_all
  with binade_bounds [OF assms(1)] assms(2) show False by linarith
qed

lemma binade_ge:
  assumes "0 < a" and "power_int 2 k \<le> a"
  shows "k \<le> binade a"
proof (rule ccontr)
  assume "\<not> k \<le> binade a"
  then have "power_int (2::real) (binade a + 1) \<le> power_int 2 k"
    by (intro power_int_increasing) simp_all
  with binade_bounds [OF assms(1)] assms(2) show False by linarith
qed

lemma round_double_0 [simp]: "round_double 0 = Finite 0"
  by (simp add: round_double_def)


lemma round_double_overflow:
  assumes "2 ^ 1024 \<le> x"
  shows "round_double x = PosInfinity"
proof -
  have "(0::real) < 2 ^ 1024" by (rule zero_less_power) simp
  with assms have x: "0 < x" by linarith
  have p: "power_int (2::real) 1024 = 2 ^ 1024" by (rule power_int_numeral)
  have b: "(1024::int) \<le> binade x" using x assms p by (intro binade_ge) (simp_all only:)
  then have "power_int (2::real) 1024 \<le> power_int 2 (binade x)"
    by (rule power_int_increasing) simp
  moreover have "- 1022 \<le> binade x" using b by linarith
  ultimately have "power_int 2 1024 \<le> nearest x"
    using nearest_ge_pow [OF x] by linarith
  with x show ?thesis by (simp add: round_double_def)
qed

lemma nearest_on_grid:
  assumes "0 < a" and "a = of_int m * power_int 2 (ulp_exponent a)"
  shows "nearest a = a"
proof -
  have "a / power_int 2 (ulp_exponent a) = of_int m"
    using assms(2) by (simp add: field_simps)
  moreover have "round_half_even (of_int m) = m"
    using round_half_even_ge [of m "of_int m"] round_half_even_le [of "of_int m" m] by simp
  ultimately show ?thesis using assms(2) by (simp add: nearest_def)
qed

lemma round_double_nat:
  assumes "n < 2 ^ 53"
  shows "round_double (of_nat n) = Finite (of_nat n)"
proof (cases "n = 0")
  case True
  then show ?thesis by simp
next
  case False
  define a :: real where "a = of_nat n"
  have a: "0 < a" "1 \<le> a" using False by (simp_all add: a_def)
  have "a < of_nat (2 ^ 53)" unfolding a_def using assms by (simp only: of_nat_less_iff)
  then have a53: "a < power_int 2 53" by simp
  have hi: "binade a < 53" using a(1) a53 by (rule binade_less)
  have lo: "0 \<le> binade a" using a by (intro binade_ge) simp_all
  define k where "k = nat (52 - binade a)"
  have p: "ulp_exponent a = - int k" using hi lo by (simp add: ulp_exponent_def k_def)
  have "a = of_int (int n * 2 ^ k) * power_int 2 (ulp_exponent a)"
    unfolding p by (simp add: a_def power_int_minus field_simps)
  with a(1) have "nearest a = a" by (rule nearest_on_grid)
  moreover have "a < power_int 2 1024"
    using a53 power_int_increasing [of 53 1024 "2::real"] by simp
  ultimately show ?thesis using a(1) by (simp add: round_double_def a_def)
qed

lemma round_double_numeral [simp]:
  "(numeral k :: nat) < 2 ^ 53 \<Longrightarrow> round_double (numeral k) = Finite (numeral k)"
  using round_double_nat [of "numeral k"] by simp

lemma round_double_1 [simp]: "round_double 1 = Finite 1"
  using round_double_nat [of 1] by simp

text \<open>
  The values the sample page computes.
\<close>

lemma floorlog_samples:
  "floorlog 2 3 = 2" "floorlog 2 6 = 3" "floorlog 2 299 = 9" "floorlog 2 2300 = 12"
  by (simp_all add: compute_floorlog)

lemma round_double_three_tenths:
  "round_double (3 / 10) = Finite (5404319552844595 / 18014398509481984)"
  by (simp add: round_double_def nearest_def ulp_exponent_def binade_def round_half_even_def
        floorlog_samples Let_def)



section \<open>The backoff delay\<close>









text \<open>
  Two values of the code that exact arithmetic would not give. At attempt 1025 with
  factor 2 the power overflows: the base is \<open>Infinity\<close>, the jitter \<open>0 * Infinity\<close> is NaN,
  and so is the delay. At attempt 4 with factor 1.2 (the double nearest to it) and an
  initial delay of 1000 the base is the double just below 1728, and with
  \<open>Math.random() = 0\<close> so is the delay.
\<close>

lemma backoff_delay_overflow_example:
  "calculateBackoffDelay pow_rounded 0 1025 (Finite 1000) (Finite 10000) (Finite 2) = NaN"
  by (simp add: calculateBackoffDelay_def pow_rounded_def round_double_three_tenths
        round_double_overflow js_sign_def)

lemma floorlog_more: "floorlog 2 (Suc 0) = 1" "floorlog 2 1727 = 11"
  by (simp_all add: compute_floorlog)

lemma twelve_tenths: "round_double (12 / 10) = Finite (5404319552844595 / 4503599627370496)"
  by (simp add: round_double_def nearest_def ulp_exponent_def binade_def round_half_even_def
        floorlog_more Let_def)

lemma cube_exact:
  "(5404319552844595 / 4503599627370496 :: real) ^ 3 = 157842176831737497641996064378315968350761944875 / 91343852333181432387730302044767688728495783936"
  by (simp add: power_divide)

lemma cube_rounded:
  "round_double (157842176831737497641996064378315968350761944875 / 91343852333181432387730302044767688728495783936) = Finite (972777519512027 / 562949953421312)"
  by (simp add: round_double_def nearest_def ulp_exponent_def binade_def round_half_even_def
        floorlog_more Let_def)

lemma base_1728:
  "round_double (1000 * (972777519512027 / 562949953421312))
     = Finite (7599824371187711 / 4398046511104)"
  by (simp add: round_double_def nearest_def ulp_exponent_def binade_def round_half_even_def
        floorlog_more Let_def)

lemma backoff_delay_rounding_example:
  "calculateBackoffDelay pow_rounded 0 4 (Finite 1000) (Finite 10000)
     (Finite (5404319552844595 / 4503599627370496))
   = Finite (7599824371187711 / 4398046511104)
   \<and> (7599824371187711 / 4398046511104 :: real) < 1728"
proof -
  have p: "pow_rounded (Finite (5404319552844595 / 4503599627370496)) (4 - 1)
             = Finite (972777519512027 / 562949953421312)"
  proof -
    have "pow_rounded (Finite (5404319552844595 / 4503599627370496)) (4 - 1)
            = round_double ((5404319552844595 / 4503599627370496) ^ 3)"
      by (simp add: pow_rounded_def)
    then show ?thesis by (simp only: cube_exact cube_rounded)
  qed
  have b: "js_mul (Finite 1000) (Finite (972777519512027 / 562949953421312))
             = Finite (7599824371187711 / 4398046511104)"
    using base_1728 by simp
  have s: "round_double (7599824371187711 / 4398046511104 + 0)
             = Finite (7599824371187711 / 4398046511104)"
    by (simp add: round_double_def nearest_def ulp_exponent_def binade_def round_half_even_def
          floorlog_more Let_def)
  show ?thesis
    unfolding calculateBackoffDelay_def Let_def p b
    using s by (simp add: round_double_three_tenths)
qed


section \<open>The queue status\<close>

lemma status_partition:
  "length xs = length (filter (\<lambda>u. status u = Pending) xs)
             + length (filter (\<lambda>u. status u = Uploading) xs)
             + length (filter (\<lambda>u. status u = Failed) xs)"
proof (induction xs)
  case Nil
  show ?case by simp
next
  case (Cons x xs)
  then show ?case by (cases "status x") simp_all
qed

text \<open>
  C10. For every state, \<open>getQueueStatus\<close> returns a snapshot, and in it
  \<open>total = pending + uploading + failed\<close>: the status of a stored record is one of the
  three values of its type.
\<close>

theorem queue_status_total:
  "\<exists>st. fst (getQueueStatus w) = Inr st \<and> total st = pending st + uploading st + failed st"
  using status_partition [of "pendingUploads w"]
  by (simp add: getQueueStatus_def db_getAll_def getDB_def)

section \<open>The retry helper\<close>

lemma logged_apply:
  "logged operation (calls, s) = (case operation s of (r, s1) \<Rightarrow> (r, calls @ [r], s1))"
  by (simp add: logged_def)

lemma aside_random_apply:
  "aside_random rand (calls, s) = (case rand s of (r, s1) \<Rightarrow> (r, calls, s1))"
  by (simp add: aside_random_def)

lemma aside_sleep_apply: "aside_sleep sleep ms (calls, s) = (calls, sleep ms s)"
  by (simp add: aside_sleep_def)

lemma retry_loop_logged:
  assumes "k = nat (maxRetries cfg - a)" and "a \<le> maxRetries cfg"
    and "retry_loop pow (aside_random rand) (aside_sleep sleep) cfg (logged operation) a le (calls0, s)
           = (res, calls, s1)"
  shows "\<exists>new. calls = calls0 @ new \<and> new \<noteq> [] \<and> length new \<le> k + 1 \<and> res = last new
           \<and> (\<forall>r \<in> set (butlast new). isl r) \<and> (isl res \<longrightarrow> length new = k + 1)
           \<and> retry_loop pow rand sleep cfg operation a le s = (res, s1)"
  using assms
proof (induction k arbitrary: a le calls0 s)
  case 0
  then have a: "a = maxRetries cfg" by simp
  obtain r s' where op: "operation s = (r, s')" by (cases "operation s")
  show ?case
  proof (cases r)
    case (Inl e)
    with 0(3) op a have "res = Inl e" "calls = calls0 @ [Inl e]" "s1 = s'"
      by (auto simp: retry_loop.simps [of _ _ _ cfg _ "maxRetries cfg"] logged_apply)
    with op a Inl show ?thesis
      by (simp add: retry_loop.simps [of _ _ _ cfg _ "maxRetries cfg"])
  next
    case (Inr v)
    with 0(3) op a have "res = Inr v" "calls = calls0 @ [Inr v]" "s1 = s'"
      by (auto simp: retry_loop.simps [of _ _ _ cfg _ "maxRetries cfg"] logged_apply)
    with op a Inr show ?thesis
      by (simp add: retry_loop.simps [of _ _ _ cfg _ "maxRetries cfg"])
  qed
next
  case (Suc k)
  then have a: "a + 1 \<le> maxRetries cfg" "k = nat (maxRetries cfg - (a + 1))" by simp_all
  obtain r s' where op: "operation s = (r, s')" by (cases "operation s")
  show ?case
  proof (cases r)
    case (Inr v)
    with Suc(4) op a have "res = Inr v" "calls = calls0 @ [Inr v]" "s1 = s'"
      by (auto simp: retry_loop.simps [of _ _ _ cfg _ a] logged_apply)
    with op a Inr show ?thesis
      by (simp add: retry_loop.simps [of _ _ _ cfg _ a])
  next
    case (Inl e)
    obtain x s2 where rd: "rand s' = (x, s2)" by (cases "rand s'")
    let ?d = "calculateBackoffDelay pow x (a + 1) (initialDelay cfg) (maxDelay cfg) (backoffFactor cfg)"
    from Suc(4) op a Inl rd
    have rec: "retry_loop pow (aside_random rand) (aside_sleep sleep) cfg (logged operation) (a + 1)
            (Some e) (calls0 @ [Inl e], sleep ?d s2) = (res, calls, s1)"
      by (simp add: retry_loop.simps [of _ _ _ cfg _ a] logged_apply aside_random_apply aside_sleep_apply)
    from Suc.IH [OF a(2) a(1) rec]
    obtain new where n: "calls = (calls0 @ [Inl e]) @ new" "new \<noteq> []" "length new \<le> k + 1"
      "res = last new" "\<forall>r \<in> set (butlast new). isl r" "isl res \<longrightarrow> length new = k + 1"
      "retry_loop pow rand sleep cfg operation (a + 1) (Some e) (sleep ?d s2) = (res, s1)"
      by blast
    have plain: "retry_loop pow rand sleep cfg operation a le s = (res, s1)"
      using n(7) op a Inl rd by (simp add: retry_loop.simps [of _ _ _ cfg _ a])
    show ?thesis
    proof (intro exI [of _ "Inl e # new"] conjI)
      show "\<forall>r \<in> set (butlast (Inl e # new)). isl r" using n(2,5) by simp
    qed (use n plain in simp_all)
  qed
qed

text \<open>
  C9. With \<open>maxRetries = n \<ge> 0\<close>, \<open>retryWithBackoff\<close> calls the operation at least once
  and at most \<open>n + 1\<close> times; its outcome is the result of the last call; every call
  before the last one failed, so a success ends the run at once; and when the outcome is
  a failure, all \<open>n + 1\<close> calls were made and the error is that of the last one. Keeping
  the list of calls does not change the run.
\<close>

theorem retryWithBackoff_invocations:
  assumes "maxRetries (finalConfig config) = int n"
    and "retryWithBackoff pow (aside_random rand) (aside_sleep sleep) (logged operation) config
           ([], s) = (res, calls, s1)"
  shows "length calls \<le> n + 1 \<and> calls \<noteq> [] \<and> res = last calls
       \<and> (\<forall>r \<in> set (butlast calls). isl r)
       \<and> (isl res \<longrightarrow> length calls = n + 1)
       \<and> retryWithBackoff pow rand sleep operation config s = (res, s1)"
proof -
  have k: "n = nat (maxRetries (finalConfig config) - 0)" and le: "0 \<le> maxRetries (finalConfig config)"
    using assms(1) by simp_all
  from retry_loop_logged [OF k le assms(2) [unfolded retryWithBackoff_def]]
  show ?thesis by (auto simp: retryWithBackoff_def)
qed

theorem retryWithBackoff_invocations_witness:
  "retryWithBackoff pow_rounded (aside_random (\<lambda>s. (0, s))) (aside_sleep (\<lambda>ms s. s))
      (logged (\<lambda>s::nat. (if s < 2 then Inl (NetworkError ''offline'') else Inr s, s + 1)))
      upload_retry_config ([], 0)
     = (Inr 2, [Inl (NetworkError ''offline''), Inl (NetworkError ''offline''), Inr 2], 3)
   \<and> length [Inl (NetworkError ''offline''), Inl (NetworkError ''offline''), Inr (2::nat)] \<le> 3 + 1
   \<and> retryWithBackoff pow_rounded (\<lambda>s. (0, s)) (\<lambda>ms s. s)
        (\<lambda>s::nat. (if s < 2 then Inl (NetworkError ''offline'') else Inr s, s + 1))
        upload_retry_config 0
       = (Inr 2, 3)"
proof -
  have cfg: "maxRetries (finalConfig upload_retry_config) = int 3"
    by (simp add: finalConfig_def upload_retry_config_def)
  have go: "retryWithBackoff pow_rounded (aside_random (\<lambda>s. (0, s))) (aside_sleep (\<lambda>ms s. s))
      (logged (\<lambda>s::nat. (if s < 2 then Inl (NetworkError ''offline'') else Inr s, s + 1)))
      upload_retry_config ([], 0)
     = (Inr 2, [Inl (NetworkError ''offline''), Inl (NetworkError ''offline''), Inr 2], 3)"
    by (simp add: retryWithBackoff_def retry_loop.simps finalConfig_def upload_retry_config_def
          logged_apply aside_random_apply aside_sleep_apply)
  from retryWithBackoff_invocations [OF cfg go] go show ?thesis by simp
qed

section \<open>The object store\<close>

lemma idb_get_put_same: "idb_get (upload_id r) (idb_put r xs) = Some r"
  by (induction xs) auto

lemma idb_get_put_other: "key \<noteq> upload_id r \<Longrightarrow> idb_get key (idb_put r xs) = idb_get key xs"
  by (induction xs) auto

lemma idb_get_delete_same: "idb_get key (idb_delete key xs) = None"
  by (induction xs) (auto simp: idb_delete_def)

lemma idb_get_delete_other: "key \<noteq> k \<Longrightarrow> idb_get key (idb_delete k xs) = idb_get key xs"
  by (induction xs) (auto simp: idb_delete_def)

lemma idb_get_Some_id: "idb_get key xs = Some u \<Longrightarrow> upload_id u = key"
  by (induction xs) (auto split: if_splits)

lemma idb_get_Some_mem: "idb_get key xs = Some u \<Longrightarrow> u \<in> set xs"
  by (induction xs) (auto split: if_splits)

text \<open>
  A store built by \<open>put\<close> and \<open>delete\<close> from the empty store is in strict key order, and so
  its keys are distinct.
\<close>

lemma idb_put_keys: "set (map upload_id (idb_put r xs)) = insert (upload_id r) (set (map upload_id xs))"
  by (induction xs) auto

lemma idb_put_sorted:
  "sorted_wrt (<) (map upload_id xs) \<Longrightarrow> sorted_wrt (<) (map upload_id (idb_put r xs))"
proof (induction xs)
  case Nil
  show ?case by simp
next
  case (Cons x xs)
  then show ?case
    using idb_put_keys [of r xs] by (auto simp: less_imp_neq)
qed

lemma idb_delete_sorted:
  "sorted_wrt (<) (map upload_id xs) \<Longrightarrow> sorted_wrt (<) (map upload_id (idb_delete key xs))"
  by (induction xs) (auto simp: idb_delete_def)

lemma sorted_keys_distinct:
  "sorted_wrt (<) (map upload_id xs) \<Longrightarrow> distinct (map upload_id (xs :: object_store))"
  by (induction xs) auto

section \<open>One upload\<close>

lemma retry_loop_related:
  assumes refl: "\<And>s. R s s"
    and trans: "\<And>a b c. R a b \<Longrightarrow> R b c \<Longrightarrow> R a c"
    and op: "\<And>s r s1. operation s = (r, s1) \<Longrightarrow> R s s1"
    and rd: "\<And>s r s1. rand s = (r, s1) \<Longrightarrow> R s s1"
    and sl: "\<And>ms s. R s (sleep ms s)"
    and run: "retry_loop pow rand sleep cfg operation attempt lastError s = (res, s')"
  shows "R s s'"
  using run
proof (induction "nat (maxRetries cfg + 1 - attempt)" arbitrary: attempt lastError s)
  case 0
  then have "s' = s" by (simp add: retry_loop.simps [of _ _ _ cfg _ attempt])
  with refl show ?case by simp
next
  case (Suc k)
  then have le: "attempt \<le> maxRetries cfg" by simp
  obtain r s1 where o: "operation s = (r, s1)" by (cases "operation s")
  show ?case
  proof (cases r)
    case (Inr v)
    with Suc.prems le o have "s' = s1"
      by (simp add: retry_loop.simps [of _ _ _ cfg _ attempt])
    with op [OF o] show ?thesis by simp
  next
    case (Inl e)
    show ?thesis
    proof (cases "attempt + 1 > maxRetries cfg")
      case True
      with Suc.prems le o Inl have "s' = s1"
        by (simp add: retry_loop.simps [of _ _ _ cfg _ attempt])
      with op [OF o] show ?thesis by simp
    next
      case False
      obtain x s2 where r: "rand s1 = (x, s2)" by (cases "rand s1")
      let ?s3 = "sleep (calculateBackoffDelay pow x (attempt + 1) (initialDelay cfg) (maxDelay cfg)
                    (backoffFactor cfg)) s2"
      from Suc.prems le o Inl False r
      have rec: "retry_loop pow rand sleep cfg operation (attempt + 1) (Some e) ?s3 = (res, s')"
        by (simp add: retry_loop.simps [of _ _ _ cfg _ attempt])
      have k: "k = nat (maxRetries cfg + 1 - (attempt + 1))"
        using Suc.hyps(2) by simp
      from Suc.hyps(1) [OF k rec] have "R ?s3 s'" .
      moreover have "R s ?s3"
        using trans [OF trans [OF op [OF o] rd [OF r]] sl] .
      ultimately show ?thesis by (rule trans [rotated])
    qed
  qed
qed

lemma transfer_frame:
  assumes "retryWithBackoff (math_pow env) (world_random env) world_sleep (uploadFile env upload) config w = (res, w1)"
  shows "frame w1 = frame w"
proof (rule retry_loop_related [where R = "\<lambda>a b. frame b = frame a",
      OF _ _ _ _ _ assms [unfolded retryWithBackoff_def]])
  show "\<And>s r s1. uploadFile env upload s = (r, s1) \<Longrightarrow> frame s1 = frame s"
    by (auto simp: uploadFile_def frame_def)
  show "\<And>s r s1. world_random env s = (r, s1) \<Longrightarrow> frame s1 = frame s"
    by (auto simp: world_random_def frame_def)
  show "\<And>ms s. frame (world_sleep ms s) = frame s"
    by (simp add: world_sleep_def frame_def)
qed simp_all

lemma processUpload_try_failed:
  assumes "processUpload_try env upload w = (Inl err, w1)"
  shows "frame w1 = frame w"
proof -
  obtain res w2 where t: "retryWithBackoff (math_pow env) (world_random env) world_sleep (uploadFile env upload)
             upload_retry_config w = (res, w2)"
    by (cases "retryWithBackoff (math_pow env) (world_random env) world_sleep (uploadFile env upload)
             upload_retry_config w")
  from transfer_frame [OF t] have f: "frame w2 = frame w" .
  from assms t have "w1 = w2"
    by (auto simp: processUpload_try_def db_delete_def split: sum.splits if_splits)
  with f show ?thesis by simp
qed

lemma processUpload_try_succeeded:
  assumes "processUpload_try env upload w = (Inr u, w1)"
  shows "\<exists>code w0. retryWithBackoff (math_pow env) (world_random env) world_sleep (uploadFile env upload)
             upload_retry_config w = (Inr code, w0) \<and> response_ok code \<and> db_connected w"
proof -
  obtain res w0 where t: "retryWithBackoff (math_pow env) (world_random env) world_sleep (uploadFile env upload)
             upload_retry_config w = (res, w0)"
    by (cases "retryWithBackoff (math_pow env) (world_random env) world_sleep (uploadFile env upload)
             upload_retry_config w")
  from transfer_frame [OF t] have f: "db_connected w0 = db_connected w"
    by (simp add: frame_def)
  from assms t f show ?thesis
    by (auto simp: processUpload_try_def db_delete_def split: sum.splits if_splits)
qed

lemmas example_defs = example_upload_def example_world_def env_unreachable_def
  env_server_error_def env_ok_def

lemmas run_defs = processUpload_def processUpload_begin_def processUpload_settle_def
  processUpload_try_def processUpload_catch_def retryWithBackoff_def retry_loop.simps
  finalConfig_def upload_retry_config_def uploadFile_def world_random_def world_sleep_def
  calculateBackoffDelay_def pow_rounded_def round_double_three_tenths notifyProgress_def
  db_update_def db_delete_def getDB_def
  response_ok_def idb_delete_def Let_def

lemma settle_after_failure:
  assumes "db_connected w" and "processUpload_try env upload w = (Inl err, w1)"
  shows "let failedUpload = upload\<lparr>status := Failed, retryCount := retryCount upload + 1,
                                    error := Some err\<rparr>;
             w2 = snd (processUpload_settle env upload w)
         in fst (processUpload_settle env upload w) = Inr ()
          \<and> trace w2 = trace w1 @ DbPut failedUpload
                # map (\<lambda>callback. Notified callback failedUpload) (progressCallbacks w)
                @ (if 5 \<le> retryCount upload + 1 then [DbDelete (upload_id upload)] else [])
          \<and> idb_get (upload_id upload) (pendingUploads w2)
              = (if 5 \<le> retryCount upload + 1 then None else Some failedUpload)"
proof -
  from processUpload_try_failed [OF assms(2)] assms(1)
  have c: "db_connected w1" and cb: "progressCallbacks w1 = progressCallbacks w"
    by (simp_all add: frame_def)
  have put: "idb_get (upload_id upload)
               (idb_put (upload\<lparr>status := Failed, retryCount := Suc (retryCount upload),
                                error := Some err\<rparr>) xs)
             = Some (upload\<lparr>status := Failed, retryCount := Suc (retryCount upload),
                                error := Some err\<rparr>)" for xs
    using idb_get_put_same [of "upload\<lparr>status := Failed, retryCount := Suc (retryCount upload),
                                error := Some err\<rparr>" xs] by simp
  show ?thesis
    using c cb assms(2)
    by (simp add: processUpload_settle_def processUpload_catch_def db_update_def db_delete_def
          notifyProgress_def Let_def idb_get_delete_same put)
qed

lemma settle_after_success:
  assumes "db_connected w"
    and "retryWithBackoff (math_pow env) (world_random env) world_sleep (uploadFile env upload)
           upload_retry_config w = (Inr code, w1)"
    and "response_ok code"
  shows "let completion = upload\<lparr>status := Pending, progress := 100\<rparr>;
             w2 = snd (processUpload_settle env upload w)
         in fst (processUpload_settle env upload w) = Inr ()
          \<and> pendingUploads w2 = idb_delete (upload_id upload) (pendingUploads w)
          \<and> idb_get (upload_id upload) (pendingUploads w2) = None
          \<and> trace w2 = trace w1 @ DbDelete (upload_id upload)
                # map (\<lambda>callback. Notified callback completion) (progressCallbacks w)
          \<and> (\<forall>r \<in> set (pendingUploads w2).
                 status r = Pending \<or> status r = Uploading \<or> status r = Failed)"
proof -
  from transfer_frame [OF assms(2)] assms(1)
  have "db_connected w1" "pendingUploads w1 = pendingUploads w"
    "progressCallbacks w1 = progressCallbacks w"
    by (simp_all add: frame_def)
  moreover have "status r = Pending \<or> status r = Uploading \<or> status r = Failed"
    for r :: PendingUpload
    by (cases "status r") simp_all
  ultimately show ?thesis
    using assms(2,3)
    by (simp add: processUpload_settle_def processUpload_try_def db_delete_def
          notifyProgress_def Let_def idb_get_delete_same)
qed

text \<open>
  C1, as the code has it. The database is open, as it is once \<open>processUpload\<close> has
  passed its first block. When the attempt of a record has failed (the retry helper has
  given up, or the response was not ok), \<open>processUpload\<close> raises no error; it first
  writes the record to the store with status \<open>failed\<close>, \<open>retryCount\<close> incremented and the
  error message set, then notifies every subscriber with that record, and only then,
  if the incremented \<open>retryCount\<close> is at least 5, deletes the record. Afterwards the
  record is absent if the incremented \<open>retryCount\<close> is at least 5, and otherwise stored as
  \<open>failed\<close> with its error.
\<close>

theorem processUpload_failure_outcome:
  assumes "db_connected w" and "processUpload_try env upload w = (Inl err, w1)"
  shows "let failedUpload = upload\<lparr>status := Failed, retryCount := retryCount upload + 1,
                                    error := Some err\<rparr>;
             w2 = snd (processUpload_settle env upload w)
         in fst (processUpload_settle env upload w) = Inr ()
          \<and> trace w2 = trace w1 @ DbPut failedUpload
                # map (\<lambda>callback. Notified callback failedUpload) (progressCallbacks w)
                @ (if 5 \<le> retryCount upload + 1 then [DbDelete (upload_id upload)] else [])
          \<and> idb_get (upload_id upload) (pendingUploads w2)
              = (if 5 \<le> retryCount upload + 1 then None else Some failedUpload)"
  using assms by (rule settle_after_failure)

theorem processUpload_failure_outcome_witness:
  "fst (processUpload_settle env_unreachable (example_upload Uploading 0)
          (example_world [example_upload Uploading 0])) = Inr ()
   \<and> idb_get ''u1''
         (pendingUploads
            (snd (processUpload_settle env_unreachable (example_upload Uploading 0)
                    (example_world [example_upload Uploading 0]))))
       = Some ((example_upload Failed 1)\<lparr>error := Some (NetworkError ''Failed to fetch'')\<rparr>)"
proof -
  have c: "db_connected (example_world [example_upload Uploading 0])"
    by (simp add: example_world_def)
  have t: "processUpload_try env_unreachable (example_upload Uploading 0)
             (example_world [example_upload Uploading 0])
           = (Inl (NetworkError ''Failed to fetch''),
              snd (processUpload_try env_unreachable (example_upload Uploading 0)
                     (example_world [example_upload Uploading 0])))"
    by (simp add: example_defs run_defs)
  from processUpload_failure_outcome [OF c t] show ?thesis
    by (simp add: Let_def example_defs)
qed

text \<open>
  C1 as the claim states it says that no stored state with status \<open>failed\<close> and
  \<open>retryCount = 5\<close> can be observed. A record with \<open>retryCount = 4\<close> whose four requests
  are all rejected is written to the store as \<open>failed\<close> with \<open>retryCount = 5\<close>, the
  subscriber is notified with it, and the deletion follows.
\<close>

theorem eviction_writes_failed_state_counterexample:
  "trace (snd (processUpload env_unreachable (example_upload Pending 4)
                 (example_world [example_upload Pending 4])))
   = [DbPut (example_upload Uploading 4), Notified 7 (example_upload Uploading 4),
      Fetched ''u1'', Slept (Finite 1000), Fetched ''u1'', Slept (Finite 2000), Fetched ''u1'', Slept (Finite 4000),
      Fetched ''u1'',
      DbPut ((example_upload Failed 5)\<lparr>error := Some (NetworkError ''Failed to fetch'')\<rparr>),
      Notified 7 ((example_upload Failed 5)\<lparr>error := Some (NetworkError ''Failed to fetch'')\<rparr>),
      DbDelete ''u1'']
   \<and> status ((example_upload Failed 5)\<lparr>error := Some (NetworkError ''Failed to fetch'')\<rparr>) = Failed
   \<and> retryCount ((example_upload Failed 5)\<lparr>error := Some (NetworkError ''Failed to fetch'')\<rparr>) = 5"
  by (simp add: example_defs run_defs)

text \<open>
  C2 on the failing input: the server answers the first request with status 503.
  \<open>uploadFile\<close> returns that response, so \<open>retryWithBackoff\<close> returns at once; the
  check of \<open>response.ok\<close> (line 181) comes after the helper and throws into the \<open>catch\<close>
  of \<open>processUpload\<close>. One request is sent, no delay is slept, and the record is stored as
  \<open>failed\<close> with \<open>retryCount = 1\<close>.
\<close>

theorem http_error_status_not_retried:
  "trace (snd (processUpload env_server_error (example_upload Pending 0)
                 (example_world [example_upload Pending 0])))
   = [DbPut (example_upload Uploading 0), Notified 7 (example_upload Uploading 0),
      Fetched ''u1'',
      DbPut ((example_upload Failed 1)\<lparr>error := Some (UploadFailed 503)\<rparr>),
      Notified 7 ((example_upload Failed 1)\<lparr>error := Some (UploadFailed 503)\<rparr>)]
   \<and> fetchCount (snd (processUpload env_server_error (example_upload Pending 0)
                 (example_world [example_upload Pending 0]))) = 1
   \<and> pendingUploads (snd (processUpload env_server_error (example_upload Pending 0)
                 (example_world [example_upload Pending 0])))
       = [(example_upload Failed 1)\<lparr>error := Some (UploadFailed 503)\<rparr>]"
  by (simp add: example_defs run_defs)

text \<open>
  C7, as the code has it. The database is open, as it is once \<open>processUpload\<close> has
  passed its first block. When the transfer of a record ends with an ok response,
  \<open>processUpload\<close> raises no error, deletes the record from the store, and then calls
  every registered progress callback once, in the order of registration, with the record
  carrying \<open>progress = 100\<close> and the status \<open>pending\<close> that line 187 assigns,
  whatever the store holds under the record's key at that moment. The
  records that remain in the store have one of the three statuses of the type; there is
  no status \<open>completed\<close>.
\<close>

theorem processUpload_success_outcome:
  assumes "db_connected w"
    and "retryWithBackoff (math_pow env) (world_random env) world_sleep (uploadFile env upload)
           upload_retry_config w = (Inr code, w1)"
    and "response_ok code"
  shows "let completion = upload\<lparr>status := Pending, progress := 100\<rparr>;
             w2 = snd (processUpload_settle env upload w)
         in fst (processUpload_settle env upload w) = Inr ()
          \<and> pendingUploads w2 = idb_delete (upload_id upload) (pendingUploads w)
          \<and> idb_get (upload_id upload) (pendingUploads w2) = None
          \<and> trace w2 = trace w1 @ DbDelete (upload_id upload)
                # map (\<lambda>callback. Notified callback completion) (progressCallbacks w)
          \<and> (\<forall>r \<in> set (pendingUploads w2).
                 status r = Pending \<or> status r = Uploading \<or> status r = Failed)"
  using assms by (rule settle_after_success)

theorem processUpload_success_outcome_witness:
  "fst (processUpload_settle env_ok (example_upload Uploading 0)
          (example_world [example_upload Uploading 0])) = Inr ()
   \<and> pendingUploads (snd (processUpload_settle env_ok (example_upload Uploading 0)
          (example_world [example_upload Uploading 0]))) = []
   \<and> trace (snd (processUpload_settle env_ok (example_upload Uploading 0)
          (example_world [example_upload Uploading 0])))
       = [Fetched ''u1'', DbDelete ''u1'',
          Notified 7 ((example_upload Pending 0)\<lparr>progress := 100\<rparr>)]"
proof -
  have c: "db_connected (example_world [example_upload Uploading 0])"
    by (simp add: example_world_def)
  have t: "retryWithBackoff (math_pow env_ok) (world_random env_ok) world_sleep
             (uploadFile env_ok (example_upload Uploading 0)) upload_retry_config
             (example_world [example_upload Uploading 0])
           = (Inr 200, (example_world [example_upload Uploading 0])
                \<lparr>fetchCount := 1, trace := [Fetched ''u1'']\<rparr>)"
    by (simp add: example_defs run_defs)
  have ok: "response_ok 200" by (simp add: response_ok_def)
  from processUpload_success_outcome [OF c t ok] show ?thesis
    by (simp add: Let_def example_defs idb_delete_def)
qed

text \<open>
  C7 as the claim states it has the completion event report the status the record had in
  the store right before its deletion. In this run, with no other task in between, the
  stored status after the first block of \<open>processUpload\<close> is \<open>uploading\<close>; the
  completion event reports \<open>pending\<close>.
\<close>

theorem completion_status_counterexample:
  "idb_get ''u1''
     (pendingUploads (snd (processUpload_begin (example_upload Pending 0)
                             (example_world [example_upload Pending 0]))))
     = Some (example_upload Uploading 0)
   \<and> trace (snd (processUpload env_ok (example_upload Pending 0)
                   (example_world [example_upload Pending 0])))
     = [DbPut (example_upload Uploading 0), Notified 7 (example_upload Uploading 0),
        Fetched ''u1'', DbDelete ''u1'',
        Notified 7 ((example_upload Pending 0)\<lparr>progress := 100\<rparr>)]
   \<and> status ((example_upload Pending 0)\<lparr>progress := 100\<rparr>) \<noteq> status (example_upload Uploading 0)"
  by (simp add: example_defs run_defs)

lemmas loop_defs = run_def processQueue_call_def cancelUpload_def db_getByIndex_def
  idb_index_getAll_def

text \<open>
  C5, as the code has it. When the record of the upload in flight is no longer in the
  store (the database being open), the rest of \<open>processUpload\<close> raises no error. After a successful transfer the
  record stays absent. After a failed transfer \<open>db.update\<close>, which is \<open>put\<close>, writes the
  record back with status \<open>failed\<close>; it stays in the store unless the incremented
  \<open>retryCount\<close> is at least 5, in which case it is deleted again.
\<close>

theorem post_attempt_update_after_cancel:
  assumes "db_connected w" and "idb_get (upload_id upload) (pendingUploads w) = None"
  shows "fst (processUpload_settle env upload w) = Inr ()
       \<and> idb_get (upload_id upload) (pendingUploads (snd (processUpload_settle env upload w)))
          = (case fst (processUpload_try env upload w) of
               Inr u \<Rightarrow> None
             | Inl err \<Rightarrow>
                 if 5 \<le> retryCount upload + 1 then None
                 else Some (upload\<lparr>status := Failed, retryCount := retryCount upload + 1,
                                   error := Some err\<rparr>))"
proof -
  obtain res w1 where t: "processUpload_try env upload w = (res, w1)"
    by (cases "processUpload_try env upload w")
  show ?thesis
  proof (cases res)
    case (Inl err)
    with t have t': "processUpload_try env upload w = (Inl err, w1)" by simp
    from settle_after_failure [OF assms(1) t'] t' show ?thesis
      by (simp add: Let_def)
  next
    case (Inr u)
    with t have t': "processUpload_try env upload w = (Inr u, w1)" by simp
    from processUpload_try_succeeded [OF t'] obtain code w0 where
      r: "retryWithBackoff (math_pow env) (world_random env) world_sleep (uploadFile env upload)
             upload_retry_config w = (Inr code, w0)" and ok: "response_ok code"
      by blast
    from settle_after_success [OF assms(1) r ok] t' show ?thesis
      by (simp add: Let_def idb_get_delete_same)
  qed
qed

theorem post_attempt_update_after_cancel_witness:
  "fst (processUpload_settle env_unreachable (example_upload Uploading 0) (example_world []))
     = Inr ()
   \<and> idb_get ''u1''
         (pendingUploads
            (snd (processUpload_settle env_unreachable (example_upload Uploading 0)
                    (example_world []))))
       = Some ((example_upload Failed 1)\<lparr>error := Some (NetworkError ''Failed to fetch'')\<rparr>)"
proof -
  have c: "db_connected (example_world [])"
    by (simp add: example_world_def)
  have a: "idb_get (upload_id (example_upload Uploading 0)) (pendingUploads (example_world []))
             = None"
    by (simp add: example_world_def)
  have t: "fst (processUpload_try env_unreachable (example_upload Uploading 0) (example_world []))
             = Inl (NetworkError ''Failed to fetch'')"
    by (simp add: example_defs run_defs)
  from post_attempt_update_after_cancel [OF c a, of env_unreachable] t show ?thesis
    by (simp add: example_defs)
qed

text \<open>
  C5 as the claim states it has the record stay absent. A drain pass marks the queued
  photo as \<open>uploading\<close> and awaits its transfer; \<open>cancelUpload\<close> deletes the record and
  the store is empty; all four requests are rejected, and when the pass resumes the
  record is in the store again, as \<open>failed\<close>.
\<close>

theorem cancel_in_flight_counterexample:
  "pendingUploads (run env_unreachable
       [CallProcessQueue, Resume 0, Resume 0, CallCancelUpload ''u1'']
       (example_world [example_upload Pending 0])) = []
   \<and> drains (run env_unreachable
       [CallProcessQueue, Resume 0, Resume 0, CallCancelUpload ''u1'']
       (example_world [example_upload Pending 0])) = [Transferring (example_upload Uploading 0) []]
   \<and> pendingUploads (run env_unreachable
       [CallProcessQueue, Resume 0, Resume 0, CallCancelUpload ''u1'', Resume 0]
       (example_world [example_upload Pending 0]))
     = [(example_upload Failed 1)\<lparr>error := Some (NetworkError ''Failed to fetch'')\<rparr>]"
  by (simp add: example_defs run_defs loop_defs)

section \<open>Manual retry\<close>

text \<open>
  C8. \<open>retryUpload\<close> on an id that has no record in the store fails with \<open>NotFound\<close>,
  leaves the store as it is and triggers no drain. On an id that has a record it writes
  the record back with status \<open>pending\<close> and no error message, with the same
  \<open>retryCount\<close>; no other record changes; and it then triggers the drain on the state
  with that write done.
\<close>

theorem retryUpload_outcome:
  "(idb_get uploadId (pendingUploads w) = None \<longrightarrow>
      fst (retryUpload trigger uploadId w) = Inl (NotFound uploadId)
      \<and> pendingUploads (snd (retryUpload trigger uploadId w)) = pendingUploads w
      \<and> snd (retryUpload trigger uploadId w) = getDB w)
   \<and> (\<forall>upload. idb_get uploadId (pendingUploads w) = Some upload \<longrightarrow>
        (let stored = upload\<lparr>status := Pending, error := None\<rparr>;
             persisted = (getDB w)\<lparr>pendingUploads := idb_put stored (pendingUploads w),
                                   trace := trace w @ [DbPut stored]\<rparr>
         in retryUpload trigger uploadId w = (Inr (), trigger persisted)
          \<and> idb_get uploadId (pendingUploads persisted) = Some stored
          \<and> (\<forall>k. k \<noteq> uploadId \<longrightarrow>
                 idb_get k (pendingUploads persisted) = idb_get k (pendingUploads w))
          \<and> upload_id stored = uploadId \<and> status stored = Pending \<and> error stored = None
          \<and> retryCount stored = retryCount upload))"
proof (intro conjI impI allI)
  assume "idb_get uploadId (pendingUploads w) = None"
  then show "fst (retryUpload trigger uploadId w) = Inl (NotFound uploadId)"
    and "pendingUploads (snd (retryUpload trigger uploadId w)) = pendingUploads w"
    and "snd (retryUpload trigger uploadId w) = getDB w"
    by (simp_all add: retryUpload_def db_get_def getDB_def)
next
  fix upload
  assume g: "idb_get uploadId (pendingUploads w) = Some upload"
  then have i: "upload_id upload = uploadId" by (rule idb_get_Some_id)
  have p: "idb_get uploadId (idb_put (upload\<lparr>status := Pending, error := None\<rparr>) xs)
             = Some (upload\<lparr>status := Pending, error := None\<rparr>)" for xs
    using idb_get_put_same [of "upload\<lparr>status := Pending, error := None\<rparr>" xs] i by simp
  show "let stored = upload\<lparr>status := Pending, error := None\<rparr>;
             persisted = (getDB w)\<lparr>pendingUploads := idb_put stored (pendingUploads w),
                                   trace := trace w @ [DbPut stored]\<rparr>
         in retryUpload trigger uploadId w = (Inr (), trigger persisted)
          \<and> idb_get uploadId (pendingUploads persisted) = Some stored
          \<and> (\<forall>k. k \<noteq> uploadId \<longrightarrow>
                 idb_get k (pendingUploads persisted) = idb_get k (pendingUploads w))
          \<and> upload_id stored = uploadId \<and> status stored = Pending \<and> error stored = None
          \<and> retryCount stored = retryCount upload"
    using g i p
    by (simp add: Let_def retryUpload_def db_get_def db_update_def getDB_def idb_get_put_other)
qed

theorem retryUpload_outcome_witness:
  "retryUpload processQueue_call ''u1''
       (example_world [(example_upload Failed 2)\<lparr>error := Some (UploadFailed 503)\<rparr>])
     = (Inr (),
        (example_world [example_upload Pending 2])
          \<lparr>isProcessing := True, drains := [Starting],
            trace := [DbPut (example_upload Pending 2)]\<rparr>)
   \<and> retryUpload processQueue_call ''u2''
       (example_world [(example_upload Failed 2)\<lparr>error := Some (UploadFailed 503)\<rparr>])
     = (Inl (NotFound ''u2''),
        example_world [(example_upload Failed 2)\<lparr>error := Some (UploadFailed 503)\<rparr>])"
proof -
  let ?w = "example_world [(example_upload Failed 2)\<lparr>error := Some (UploadFailed 503)\<rparr>]"
  have a: "idb_get ''u2'' (pendingUploads ?w) = None"
    by (simp add: example_defs)
  have b: "idb_get ''u1'' (pendingUploads ?w)
             = Some ((example_upload Failed 2)\<lparr>error := Some (UploadFailed 503)\<rparr>)"
    by (simp add: example_defs)
  from retryUpload_outcome [of "''u2''" ?w processQueue_call] a
  have "retryUpload processQueue_call ''u2'' ?w = (Inl (NotFound ''u2''), getDB ?w)"
    by (simp add: prod_eq_iff)
  moreover
  from retryUpload_outcome [of "''u1''" ?w processQueue_call] b
  have "retryUpload processQueue_call ''u1'' ?w
         = (Inr (), processQueue_call ((getDB ?w)
              \<lparr>pendingUploads := idb_put (example_upload Pending 2) (pendingUploads ?w),
                trace := trace ?w @ [DbPut (example_upload Pending 2)]\<rparr>))"
    by (simp add: Let_def example_upload_def)
  ultimately show ?thesis
    by (simp add: example_defs getDB_def processQueue_call_def)
qed


section \<open>The drain is single-flight\<close>

lemma processQueue_busy: "isProcessing w \<Longrightarrow> processQueue env w = w"
  by (simp add: processQueue_def)

lemma processQueue_call_busy: "isProcessing w \<Longrightarrow> processQueue_call w = w"
  by (simp add: processQueue_call_def)

lemma begin_flag:
  "isProcessing (snd (processUpload_begin upload w)) = isProcessing w
   \<and> drains (snd (processUpload_begin upload w)) = drains w"
  by (simp add: processUpload_begin_def db_update_def getDB_def notifyProgress_def Let_def)

lemma settle_flag:
  "isProcessing (snd (processUpload_settle env upload w)) = isProcessing w
   \<and> drains (snd (processUpload_settle env upload w)) = drains w"
proof -
  obtain res w0 where t: "retryWithBackoff (math_pow env) (world_random env) world_sleep (uploadFile env upload)
             upload_retry_config w = (res, w0)"
    by (cases "retryWithBackoff (math_pow env) (world_random env) world_sleep (uploadFile env upload)
             upload_retry_config w")
  from transfer_frame [OF t] have f: "isProcessing w0 = isProcessing w" "drains w0 = drains w"
    by (simp_all add: frame_def)
  show ?thesis
    using t f
    by (auto simp: processUpload_settle_def processUpload_try_def processUpload_catch_def
          db_update_def db_delete_def notifyProgress_def Let_def split: sum.splits)
qed

lemma pass_step_flag:
  assumes "pass_step env p w = (q, w1)"
  shows "drains w1 = drains w
       \<and> (case q of None \<Rightarrow> \<not> isProcessing w1 | Some p1 \<Rightarrow> isProcessing w1 = isProcessing w)"
proof (cases p)
  case Starting
  with assms show ?thesis
    by (auto simp: getDB_def db_getByIndex_def Let_def)
next
  case (Iterating uploads)
  show ?thesis
  proof (cases uploads)
    case Nil
    with assms Iterating show ?thesis by auto
  next
    case (Cons upload rest)
    with assms Iterating begin_flag [of upload w] show ?thesis
      by (auto split: prod.splits sum.splits)
  qed
next
  case (Transferring upload1 rest)
  with assms settle_flag [of env upload1 w] show ?thesis by auto
qed

lemma retryAllFailed_loop_guard: "guard (snd (retryAllFailed_loop uploads w)) = guard w"
  by (induction uploads arbitrary: w)
     (auto simp: guard_def db_update_def getDB_def split: prod.splits sum.splits)

lemma call_while_busy:
  assumes "isProcessing w" and "\<And>k. a \<noteq> Resume k"
  shows "guard (step env a w) = guard w"
proof (cases a)
  case CallRetryAllFailed
  have "guard (snd (retryAllFailed processQueue_call w)) = guard w"
  proof (cases "retryAllFailed_loop (idb_index_getAll Failed (pendingUploads w)) (getDB w)")
    case (Pair res w2)
    from retryAllFailed_loop_guard [of "idb_index_getAll Failed (pendingUploads w)" "getDB w"] Pair
    have g: "guard w2 = guard w" by (simp add: guard_def getDB_def)
    with assms(1) have "isProcessing w2" by (simp add: guard_def)
    with Pair g show ?thesis
      by (cases res)
         (simp_all add: retryAllFailed_def getFailedUploads_def db_getByIndex_def getDB_def
            processQueue_call_busy)
  qed
  with CallRetryAllFailed show ?thesis by simp
next
  case (Resume k)
  with assms(2) [of k] show ?thesis by blast
qed (use assms(1) in \<open>auto simp: guard_def processQueue_call_def init_def addToQueue_def
       retryUpload_def cancelUpload_def clearQueue_def onProgress_def unsubscribe_def
       db_add_def db_get_def db_update_def db_delete_def db_clear_def getDB_def Let_def
       split: option.splits\<close>)

lemma processQueue_call_single_flight:
  "single_flight w \<Longrightarrow> single_flight (processQueue_call w)"
  by (auto simp: single_flight_def processQueue_call_def)

lemma single_flight_guard:
  "guard w1 = guard w \<Longrightarrow> single_flight w \<Longrightarrow> single_flight w1"
  by (simp add: single_flight_def guard_def)

lemma retryAllFailed_single_flight:
  assumes "single_flight w"
  shows "single_flight (snd (retryAllFailed processQueue_call w))"
proof (cases "retryAllFailed_loop (idb_index_getAll Failed (pendingUploads w)) (getDB w)")
  case (Pair res w2)
  from retryAllFailed_loop_guard [of "idb_index_getAll Failed (pendingUploads w)" "getDB w"] Pair
  have "guard w2 = guard w" by (simp add: guard_def getDB_def)
  then have "single_flight w2" using assms by (rule single_flight_guard)
  with Pair show ?thesis
    by (cases res)
       (simp_all add: retryAllFailed_def getFailedUploads_def db_getByIndex_def getDB_def
          processQueue_call_single_flight)
qed

lemma step_single_flight:
  assumes "single_flight w"
  shows "single_flight (step env a w)"
proof (cases a)
  case CallProcessQueue
  with assms show ?thesis by (simp add: processQueue_call_single_flight)
next
  case OnlineEvent
  have "single_flight (w\<lparr>onLine := True\<rparr>)"
    using assms by (simp add: single_flight_def)
  with OnlineEvent show ?thesis
    by (simp add: Let_def processQueue_call_single_flight)
next
  case (CallAddToQueue uuid now f t)
  have "single_flight w1" if "guard w1 = guard w" for w1
    using that assms by (rule single_flight_guard)
  then show ?thesis
    using CallAddToQueue
    by (auto simp: addToQueue_def db_add_def getDB_def Let_def guard_def
          intro!: processQueue_call_single_flight split: option.splits)
next
  case (CallRetryUpload uploadId)
  have "single_flight w1" if "guard w1 = guard w" for w1
    using that assms by (rule single_flight_guard)
  then show ?thesis
    using CallRetryUpload
    by (auto simp: retryUpload_def db_get_def db_update_def getDB_def Let_def guard_def
          intro!: processQueue_call_single_flight split: option.splits)
next
  case CallRetryAllFailed
  with assms show ?thesis by (simp add: retryAllFailed_single_flight)
next
  case (Resume k)
  show ?thesis
  proof (cases "k < length (drains w)")
    case False
    with Resume assms show ?thesis by simp
  next
    case True
    with assms have k: "k = 0" and d: "drains w = [drains w ! 0]" and b: "isProcessing w"
      by (auto simp: single_flight_def length_Suc_conv le_Suc_eq)
    obtain q w1 where p: "pass_step env (drains w ! 0) w = (q, w1)"
      by (cases "pass_step env (drains w ! 0) w")
    from pass_step_flag [OF p] d b
    have "drains w1 = [drains w ! 0]"
      and "case q of None \<Rightarrow> \<not> isProcessing w1 | Some p1 \<Rightarrow> isProcessing w1"
      by (auto split: option.splits)
    with Resume True k p show ?thesis
      by (cases q) (simp_all add: single_flight_def)
  qed
qed (use assms in \<open>auto simp: single_flight_def init_def cancelUpload_def clearQueue_def
       onProgress_def unsubscribe_def db_delete_def db_clear_def getDB_def\<close>)

lemma run_single_flight: "single_flight w \<Longrightarrow> single_flight (run env actions w)"
  unfolding run_def
  by (induction actions arbitrary: w) (simp_all add: step_single_flight)

text \<open>
  C3. From a state with the flag clear and no drain pass, after any sequence of calls,
  events and resumptions, at most one drain pass exists, and the flag is set exactly when
  one does. While the flag is set, a call of \<open>processQueue\<close> returns the state as it is
  (run to its end or up to its first \<open>await\<close>), and every call or event other than the
  resumption of the running pass, among them \<open>addToQueue\<close>, the \<open>online\<close> event,
  \<open>retryUpload\<close> and \<open>retryAllFailed\<close>, leaves the flag set, adds no second pass and
  sends no request.
\<close>

theorem drain_is_single_flight:
  assumes "\<not> isProcessing w0" and "drains w0 = []" and "w = run env actions w0"
  shows "length (drains w) \<le> 1
       \<and> (isProcessing w \<longleftrightarrow> drains w \<noteq> [])
       \<and> (isProcessing w \<longrightarrow>
            processQueue_call w = w \<and> processQueue env w = w
            \<and> (\<forall>a. (\<forall>k. a \<noteq> Resume k) \<longrightarrow>
                  isProcessing (step env a w) \<and> drains (step env a w) = drains w
                  \<and> fetchCount (step env a w) = fetchCount w))"
proof -
  have "single_flight w0"
    using assms(1,2) by (simp add: single_flight_def)
  then have "single_flight w"
    unfolding assms(3) by (rule run_single_flight)
  moreover have "isProcessing (step env a w) \<and> drains (step env a w) = drains w
        \<and> fetchCount (step env a w) = fetchCount w"
    if "isProcessing w" and "\<forall>k. a \<noteq> Resume k" for a
    using call_while_busy [of w a env] that by (simp add: guard_def)
  ultimately show ?thesis
    by (simp add: single_flight_def processQueue_busy processQueue_call_busy)
qed


theorem drain_is_single_flight_witness:
  "drains (run env_ok [CallProcessQueue, OnlineEvent, CallRetryUpload ''u1'', CallProcessQueue]
             (example_world [example_upload Pending 0])) = [Starting]
   \<and> isProcessing (run env_ok
         [CallProcessQueue, OnlineEvent, CallRetryUpload ''u1'', CallProcessQueue]
         (example_world [example_upload Pending 0]))
   \<and> length (drains (run env_ok
         [CallProcessQueue, OnlineEvent, CallRetryUpload ''u1'', CallProcessQueue]
         (example_world [example_upload Pending 0]))) \<le> 1
   \<and> drains (step env_ok CallRetryAllFailed
         (run env_ok [CallProcessQueue, OnlineEvent, CallRetryUpload ''u1'', CallProcessQueue]
            (example_world [example_upload Pending 0]))) = [Starting]
   \<and> fetchCount (step env_ok (CallAddToQueue ''u2'' 1 ''clip.mp4'' Video)
         (run env_ok [CallProcessQueue, OnlineEvent, CallRetryUpload ''u1'', CallProcessQueue]
            (example_world [example_upload Pending 0]))) = 0"
proof -
  let ?w = "run env_ok [CallProcessQueue, OnlineEvent, CallRetryUpload ''u1'', CallProcessQueue]
              (example_world [example_upload Pending 0])"
  have a: "\<not> isProcessing (example_world [example_upload Pending 0])"
    and b: "drains (example_world [example_upload Pending 0]) = []"
    by (simp_all add: example_world_def)
  have c: "drains ?w = [Starting]" and f: "fetchCount ?w = 0"
    by (simp_all add: example_defs run_def processQueue_call_def retryUpload_def db_get_def
          db_update_def getDB_def Let_def)
  from drain_is_single_flight [OF a b refl,
      of env_ok "[CallProcessQueue, OnlineEvent, CallRetryUpload ''u1'', CallProcessQueue]"] c
  have l: "length (drains ?w) \<le> 1" and p: "isProcessing ?w"
    and q: "\<forall>a. (\<forall>k. a \<noteq> Resume k) \<longrightarrow>
              isProcessing (step env_ok a ?w) \<and> drains (step env_ok a ?w) = drains ?w
              \<and> fetchCount (step env_ok a ?w) = fetchCount ?w"
    by simp_all
  from q have "drains (step env_ok CallRetryAllFailed ?w) = drains ?w"
    by blast
  moreover from q have "fetchCount (step env_ok (CallAddToQueue ''u2'' 1 ''clip.mp4'' Video) ?w)
      = fetchCount ?w"
    by blast
  ultimately show ?thesis
    using c f l p by simp
qed

section \<open>Records left in status uploading\<close>

lemma untouched_iff:
  "untouched i w w1 \<longleftrightarrow>
     idb_get i (pendingUploads w1) = idb_get i (pendingUploads w)
     \<and> (\<exists>new. trace w1 = trace w @ new \<and> Fetched i \<notin> set new)"
proof
  assume u: "untouched i w w1"
  then have "trace w1 = trace w @ drop (length (trace w)) (trace w1)"
    by (metis append_take_drop_id untouched_def)
  with u show "idb_get i (pendingUploads w1) = idb_get i (pendingUploads w)
     \<and> (\<exists>new. trace w1 = trace w @ new \<and> Fetched i \<notin> set new)"
    unfolding untouched_def by blast
next
  assume "idb_get i (pendingUploads w1) = idb_get i (pendingUploads w)
     \<and> (\<exists>new. trace w1 = trace w @ new \<and> Fetched i \<notin> set new)"
  then show "untouched i w w1"
    by (auto simp: untouched_def)
qed

lemma untouched_refl: "untouched i w w"
  by (simp add: untouched_def)

lemma untouched_trans: "untouched i a b \<Longrightarrow> untouched i b c \<Longrightarrow> untouched i a c"
  unfolding untouched_iff by auto

lemma untouched_db_update:
  "upload_id r \<noteq> i \<Longrightarrow> untouched i w (snd (db_update r w))"
  by (auto simp: untouched_def db_update_def idb_get_put_other)

lemma untouched_db_delete:
  "k \<noteq> i \<Longrightarrow> untouched i w (snd (db_delete k w))"
  by (auto simp: untouched_def db_delete_def idb_get_delete_other)

lemma untouched_notify: "untouched i w (notifyProgress r w)"
  by (auto simp: untouched_def notifyProgress_def)

lemma untouched_getDB: "untouched i w (getDB w)"
  by (simp add: untouched_def getDB_def)

lemma untouched_transfer:
  assumes "retryWithBackoff (math_pow env) (world_random env) world_sleep (uploadFile env upload) config w
             = (res, w1)"
    and "upload_id upload \<noteq> i"
  shows "untouched i w w1"
proof (rule retry_loop_related [where R = "untouched i",
      OF _ _ _ _ _ assms(1) [unfolded retryWithBackoff_def]])
  show "\<And>s r s1. uploadFile env upload s = (r, s1) \<Longrightarrow> untouched i s s1"
    using assms(2) by (auto simp: uploadFile_def untouched_def)
  show "\<And>s r s1. world_random env s = (r, s1) \<Longrightarrow> untouched i s s1"
    by (auto simp: world_random_def untouched_def)
  show "\<And>ms s. untouched i s (world_sleep ms s)"
    by (simp add: world_sleep_def untouched_def)
qed (auto intro: untouched_refl untouched_trans)

lemma untouched_begin:
  assumes "upload_id upload \<noteq> i"
  shows "untouched i w (snd (processUpload_begin upload w))"
proof -
  have u: "untouched i w (snd (db_update (upload\<lparr>status := Uploading\<rparr>) (getDB w)))"
    using untouched_trans [OF untouched_getDB untouched_db_update] assms by simp
  show ?thesis
  proof (cases "db_update (upload\<lparr>status := Uploading\<rparr>) (getDB w)")
    case (Pair res w1)
    with u have "untouched i w w1" by simp
    with Pair show ?thesis
      by (cases res)
         (auto simp: processUpload_begin_def Let_def intro: untouched_trans untouched_notify)
  qed
qed

lemma untouched_catch:
  assumes "upload_id upload \<noteq> i"
  shows "untouched i w (snd (processUpload_catch err upload w))"
proof -
  let ?u = "upload\<lparr>status := Failed, retryCount := retryCount upload + 1, error := Some err\<rparr>"
  have i: "upload_id ?u \<noteq> i" using assms by simp
  obtain res w1 where p: "db_update ?u w = (res, w1)" by (cases "db_update ?u w")
  with untouched_db_update [OF i, of w] have 1: "untouched i w w1" by simp
  have 2: "untouched i w (notifyProgress ?u w1)"
    using untouched_trans [OF 1 untouched_notify] .
  have 3: "untouched i w (snd (db_delete (upload_id upload) (notifyProgress ?u w1)))"
    using untouched_trans [OF 2 untouched_db_delete [OF assms]] .
  from p 1 2 3 show ?thesis
    by (cases res) (simp_all add: processUpload_catch_def Let_def)
qed

lemma untouched_try:
  assumes "upload_id upload \<noteq> i"
  shows "untouched i w (snd (processUpload_try env upload w))"
proof -
  obtain res w0 where t: "retryWithBackoff (math_pow env) (world_random env) world_sleep (uploadFile env upload)
             upload_retry_config w = (res, w0)"
    by (cases "retryWithBackoff (math_pow env) (world_random env) world_sleep (uploadFile env upload)
             upload_retry_config w")
  from untouched_transfer [OF t assms] have 1: "untouched i w w0" .
  obtain r2 w2 where d: "db_delete (upload_id upload) w0 = (r2, w2)"
    by (cases "db_delete (upload_id upload) w0")
  with untouched_db_delete [OF assms, of w0] 1 have 2: "untouched i w w2"
    by (auto intro: untouched_trans)
  have 3: "untouched i w (notifyProgress r w2)" for r
    using untouched_trans [OF 2 untouched_notify] .
  from t d 1 2 3 show ?thesis
    by (cases res; cases r2) (simp_all add: processUpload_try_def)
qed

lemma untouched_processUpload:
  assumes "upload_id upload \<noteq> i"
  shows "untouched i w (snd (processUpload env upload w))"
proof -
  obtain res w1 where b: "processUpload_begin upload w = (res, w1)"
    by (cases "processUpload_begin upload w")
  with untouched_begin [OF assms, of w] have 1: "untouched i w w1" by simp
  show ?thesis
  proof (cases res)
    case (Inl e)
    with b 1 show ?thesis by (simp add: processUpload_def)
  next
    case (Inr upload1)
    with b have u1: "upload_id upload1 \<noteq> i"
      using assms by (auto simp: processUpload_begin_def Let_def split: prod.splits sum.splits)
    obtain r2 w2 where t: "processUpload_try env upload1 w1 = (r2, w2)"
      by (cases "processUpload_try env upload1 w1")
    with untouched_try [OF u1, of w1 env] 1 have 2: "untouched i w w2"
      by (auto intro: untouched_trans)
    have 3: "untouched i w (snd (processUpload_catch e upload1 w2))" for e
      using untouched_trans [OF 2 untouched_catch [OF u1]] .
    from b Inr t 2 3 show ?thesis
      by (cases r2) (simp_all add: processUpload_def processUpload_settle_def)
  qed
qed

lemma untouched_fold:
  assumes "\<forall>x \<in> set uploads. upload_id x \<noteq> i"
  shows "untouched i w (fold (\<lambda>upload w2. snd (processUpload env upload w2)) uploads w)"
  using assms
proof (induction uploads arbitrary: w)
  case Nil
  show ?case by (simp add: untouched_refl)
next
  case (Cons x xs)
  then have "untouched i w (snd (processUpload env x w))"
    by (simp add: untouched_processUpload)
  moreover from Cons have "untouched i (snd (processUpload env x w))
      (fold (\<lambda>upload w2. snd (processUpload env upload w2)) xs (snd (processUpload env x w)))"
    by simp
  ultimately show ?case by (auto intro: untouched_trans)
qed

lemma untouched_processQueue:
  assumes "\<forall>x \<in> set (idb_index_getAll Pending (pendingUploads w)). upload_id x \<noteq> i"
  shows "untouched i w (processQueue env w)"
proof -
  let ?w1 = "getDB (w\<lparr>isProcessing := True\<rparr>)"
  have 1: "untouched i w ?w1" by (simp add: untouched_def getDB_def)
  have p: "pendingUploads ?w1 = pendingUploads w" by (simp add: getDB_def)
  have "untouched i ?w1 (fold (\<lambda>upload w2. snd (processUpload env upload w2))
          (idb_index_getAll Pending (pendingUploads w)) ?w1)"
    using assms by (rule untouched_fold)
  with 1 have "untouched i w (fold (\<lambda>upload w2. snd (processUpload env upload w2))
          (idb_index_getAll Pending (pendingUploads w)) ?w1)"
    by (rule untouched_trans)
  then have "untouched i w ((fold (\<lambda>upload w2. snd (processUpload env upload w2))
          (idb_index_getAll Pending (pendingUploads w)) ?w1)\<lparr>isProcessing := False\<rparr>)"
    by (simp add: untouched_def)
  then show ?thesis
    by (simp add: processQueue_def Let_def db_getByIndex_def getDB_def untouched_refl)
qed

lemma not_listed_as_pending:
  assumes "distinct (map upload_id xs)" and "idb_get i xs = Some r" and "status r \<noteq> Pending"
  shows "\<forall>x \<in> set (idb_index_getAll Pending xs). upload_id x \<noteq> i"
proof
  fix x assume x: "x \<in> set (idb_index_getAll Pending xs)"
  then have m: "x \<in> set xs" and s: "status x = Pending"
    by (simp_all add: idb_index_getAll_def)
  show "upload_id x \<noteq> i"
  proof
    assume "upload_id x = i"
    with idb_get_Some_id [OF assms(2)] have "upload_id x = upload_id r" by simp
    with assms(1) m idb_get_Some_mem [OF assms(2)] have "x = r"
      by (auto simp: distinct_map dest: inj_onD)
    with s assms(3) show False by simp
  qed
qed

text \<open>
  C6, as the code has it. A record that sits in the store with status \<open>uploading\<close> (the
  keys of the store being distinct) is still there, unchanged, after \<open>init\<close> and after a
  drain pass; but \<open>init\<close> only registers the listener and the pass lists the records with
  status \<open>pending\<close> only, so the record is not among the uploads the pass works on and no
  request is sent for it.
\<close>

theorem orphaned_uploading_not_drained:
  assumes "distinct (map upload_id (pendingUploads w))"
    and "idb_get i (pendingUploads w) = Some r"
    and "status r = Uploading"
  shows "pendingUploads (init w) = pendingUploads w
       \<and> (\<forall>x \<in> set (idb_index_getAll Pending (pendingUploads (init w))). upload_id x \<noteq> i)
       \<and> idb_get i (pendingUploads (processQueue env (init w))) = Some r
       \<and> (\<exists>new. trace (processQueue env (init w)) = trace w @ new \<and> Fetched i \<notin> set new)"
proof -
  have s: "status r \<noteq> Pending" using assms(3) by simp
  have p: "pendingUploads (init w) = pendingUploads w" and t: "trace (init w) = trace w"
    by (simp_all add: init_def)
  from not_listed_as_pending [OF assms(1,2) s]
  have n: "\<forall>x \<in> set (idb_index_getAll Pending (pendingUploads (init w))). upload_id x \<noteq> i"
    by (simp add: p)
  from untouched_processQueue [OF n, of env] show ?thesis
    using p t assms(2) n by (simp add: untouched_iff)
qed

theorem orphaned_uploading_not_drained_witness:
  "idb_get ''u1''
     (pendingUploads
        (processQueue env_ok
           (init (example_world
                    [example_upload Uploading 0, (example_upload Pending 0)\<lparr>upload_id := ''u2''\<rparr>]))))
     = Some (example_upload Uploading 0)
   \<and> trace (processQueue env_ok
           (init (example_world
                    [example_upload Uploading 0, (example_upload Pending 0)\<lparr>upload_id := ''u2''\<rparr>])))
     = [DbPut ((example_upload Uploading 0)\<lparr>upload_id := ''u2''\<rparr>),
        Notified 7 ((example_upload Uploading 0)\<lparr>upload_id := ''u2''\<rparr>),
        Fetched ''u2'', DbDelete ''u2'',
        Notified 7 ((example_upload Pending 0)\<lparr>upload_id := ''u2'', progress := 100\<rparr>)]"
proof -
  let ?w = "example_world
              [example_upload Uploading 0, (example_upload Pending 0)\<lparr>upload_id := ''u2''\<rparr>]"
  have d: "distinct (map upload_id (pendingUploads ?w))"
    by (simp add: example_defs)
  have g: "idb_get ''u1'' (pendingUploads ?w) = Some (example_upload Uploading 0)"
    by (simp add: example_defs)
  have s: "status (example_upload Uploading 0) = Uploading"
    by (simp add: example_defs)
  have t: "trace (processQueue env_ok (init ?w))
     = [DbPut ((example_upload Uploading 0)\<lparr>upload_id := ''u2''\<rparr>),
        Notified 7 ((example_upload Uploading 0)\<lparr>upload_id := ''u2''\<rparr>),
        Fetched ''u2'', DbDelete ''u2'',
        Notified 7 ((example_upload Pending 0)\<lparr>upload_id := ''u2'', progress := 100\<rparr>)]"
    by (simp add: example_defs run_defs processQueue_def init_def db_getByIndex_def
          idb_index_getAll_def)
  from orphaned_uploading_not_drained [OF d g s, of env_ok] t show ?thesis by simp
qed

text \<open>
  C6 as the claim states it has the record attempted again on the next drain pass. With
  one record of status \<open>uploading\<close> in the store, a page that is online and a server that
  answers 200, \<open>init\<close> followed by a drain pass sends nothing and leaves the record as
  it is.
\<close>

theorem orphaned_uploading_counterexample:
  "pendingUploads (processQueue env_ok (init (example_world [example_upload Uploading 0])))
     = [example_upload Uploading 0]
   \<and> fetchCount (processQueue env_ok (init (example_world [example_upload Uploading 0]))) = 0
   \<and> trace (processQueue env_ok (init (example_world [example_upload Uploading 0]))) = []"
  by (simp add: example_defs run_defs processQueue_def init_def db_getByIndex_def
        idb_index_getAll_def)

section \<open>A drain pass in the event loop and as one run\<close>

lemma retry_loop_commute:
  assumes op: "\<And>s. operation (h s) = (case operation s of (r, s1) \<Rightarrow> (r, h s1))"
    and rd: "\<And>s. rand (h s) = (case rand s of (r, s1) \<Rightarrow> (r, h s1))"
    and sl: "\<And>ms s. sleep ms (h s) = h (sleep ms s)"
  shows "retry_loop pow rand sleep cfg operation attempt lastError (h s)
           = (case retry_loop pow rand sleep cfg operation attempt lastError s of
                (r, s1) \<Rightarrow> (r, h s1))"
proof (induction "nat (maxRetries cfg + 1 - attempt)" arbitrary: attempt lastError s)
  case 0
  then show ?case by (simp add: retry_loop.simps [of _ _ _ cfg _ attempt])
next
  case (Suc k)
  then have le: "attempt \<le> maxRetries cfg" by simp
  obtain r s1 where o: "operation s = (r, s1)" by (cases "operation s")
  then have oh: "operation (h s) = (r, h s1)" by (simp add: op)
  show ?case
  proof (cases r)
    case (Inr v)
    with le o oh show ?thesis
      by (simp add: retry_loop.simps [of _ _ _ cfg _ attempt])
  next
    case (Inl e)
    show ?thesis
    proof (cases "attempt + 1 > maxRetries cfg")
      case True
      with le o oh Inl show ?thesis
        by (simp add: retry_loop.simps [of _ _ _ cfg _ attempt])
    next
      case False
      obtain x s2 where r: "rand s1 = (x, s2)" by (cases "rand s1")
      then have rh: "rand (h s1) = (x, h s2)" by (simp add: rd)
      have k: "k = nat (maxRetries cfg + 1 - (attempt + 1))"
        using Suc.hyps(2) by simp
      from Suc.hyps(1) [OF k] le o oh Inl False r rh show ?thesis
        by (simp add: retry_loop.simps [of _ _ _ cfg _ attempt] sl)
    qed
  qed
qed

lemma settle_drains:
  "processUpload_settle env upload (w\<lparr>drains := d\<rparr>)
     = (case processUpload_settle env upload w of (r, w1) \<Rightarrow> (r, w1\<lparr>drains := d\<rparr>))"
proof -
  have t: "retryWithBackoff (math_pow env) (world_random env) world_sleep (uploadFile env upload)
             upload_retry_config (w\<lparr>drains := d\<rparr>)
           = (case retryWithBackoff (math_pow env) (world_random env) world_sleep (uploadFile env upload)
                upload_retry_config w of (r, w1) \<Rightarrow> (r, w1\<lparr>drains := d\<rparr>))"
    unfolding retryWithBackoff_def
    by (rule retry_loop_commute)
       (simp_all add: uploadFile_def world_random_def world_sleep_def)
  show ?thesis
    by (simp add: processUpload_settle_def processUpload_try_def processUpload_catch_def t
          db_update_def db_delete_def notifyProgress_def Let_def
          split: prod.splits sum.splits)
qed

lemma begin_connected:
  "\<exists>w1. processUpload_begin upload w = (Inr (upload\<lparr>status := Uploading\<rparr>), w1)
        \<and> drains w1 = drains w \<and> isProcessing w1 = isProcessing w"
  by (simp add: processUpload_begin_def db_update_def getDB_def notifyProgress_def Let_def)

lemma processUpload_drains:
  "processUpload env upload (w\<lparr>drains := d\<rparr>)
     = (case processUpload env upload w of (r, w1) \<Rightarrow> (r, w1\<lparr>drains := d\<rparr>))"
proof -
  have b: "processUpload_begin upload (w\<lparr>drains := d\<rparr>)
             = (case processUpload_begin upload w of (r, w1) \<Rightarrow> (r, w1\<lparr>drains := d\<rparr>))"
    by (simp add: processUpload_begin_def db_update_def getDB_def notifyProgress_def Let_def)
  show ?thesis
    by (simp add: processUpload_def b settle_drains split: prod.splits sum.splits)
qed

lemma fold_processUpload_drains:
  "fold (\<lambda>upload w2. snd (processUpload env upload w2)) uploads (w\<lparr>drains := d\<rparr>)
     = (fold (\<lambda>upload w2. snd (processUpload env upload w2)) uploads w)\<lparr>drains := d\<rparr>"
proof (induction uploads arbitrary: w)
  case Nil
  show ?case by simp
next
  case (Cons u rest)
  have "snd (processUpload env u (w\<lparr>drains := d\<rparr>)) = (snd (processUpload env u w))\<lparr>drains := d\<rparr>"
    by (simp add: processUpload_drains split: prod.splits)
  with Cons.IH show ?case by simp
qed

lemma run_iterating:
  assumes "drains w = [Iterating uploads]"
  shows "run env (replicate (2 * length uploads + 1) (Resume 0)) w
           = (fold (\<lambda>upload w2. snd (processUpload env upload w2)) uploads w)
               \<lparr>isProcessing := False, drains := []\<rparr>"
  using assms
proof (induction uploads arbitrary: w)
  case Nil
  then show ?case by (simp add: run_def)
next
  case (Cons u rest)
  obtain w1 where b: "processUpload_begin u w = (Inr (u\<lparr>status := Uploading\<rparr>), w1)"
    and d1: "drains w1 = drains w"
    using begin_connected [of u w] by blast
  let ?u1 = "u\<lparr>status := Uploading\<rparr>"
  obtain r w2 where s: "processUpload_settle env ?u1 w1 = (r, w2)"
    by (cases "processUpload_settle env ?u1 w1")
  have d2: "drains w2 = drains w1"
    using settle_flag [of env ?u1 w1] s by simp
  have step1: "step env (Resume 0) w = w1\<lparr>drains := [Transferring ?u1 rest]\<rparr>"
    using Cons.prems b d1 by simp
  have step2: "step env (Resume 0) (w1\<lparr>drains := [Transferring ?u1 rest]\<rparr>)
                 = w2\<lparr>drains := [Iterating rest]\<rparr>"
    using s by (simp add: settle_drains)
  have pu: "snd (processUpload env u w) = w2"
    using b s by (simp add: processUpload_def)
  have "run env (replicate (2 * length (u # rest) + 1) (Resume 0)) w
          = run env (replicate (2 * length rest + 1) (Resume 0)) (w2\<lparr>drains := [Iterating rest]\<rparr>)"
    using step1 step2 by (simp add: run_def)
  also have "\<dots> = (fold (\<lambda>upload w2. snd (processUpload env upload w2)) rest
                       (w2\<lparr>drains := [Iterating rest]\<rparr>))\<lparr>isProcessing := False, drains := []\<rparr>"
    by (rule Cons.IH) simp
  finally show ?case
    using pu by (simp add: fold_processUpload_drains)
qed

lemma fold_processUpload_keeps_drains:
  "drains (fold (\<lambda>upload w2. snd (processUpload env upload w2)) uploads w) = drains w"
proof (induction uploads arbitrary: w)
  case Nil
  show ?case by simp
next
  case (Cons u rest)
  have "drains (snd (processUpload env u w)) = drains w"
    using begin_flag [of u w] settle_flag [of env _ "snd (processUpload_begin u w)"]
    by (auto simp: processUpload_def split: prod.splits sum.splits)
  with Cons.IH show ?case by simp
qed

lemma drains_noop: "drains w = d \<Longrightarrow> w\<lparr>drains := d\<rparr> = w"
  by auto

text \<open>
  The two readings of \<open>processQueue\<close> agree: on an idle, online page, the call followed by
  the resumptions of the pass it starts, with no other task in between, ends in the state
  that \<open>processQueue\<close> run as one function returns. The pass is resumed once to list the
  pending uploads, twice for each of them, and once to leave through \<open>finally\<close>.
\<close>

lemma processQueue_is_one_pass:
  assumes "\<not> isProcessing w" and "onLine w" and "drains w = []"
  shows "run env (CallProcessQueue
            # replicate (2 * length (idb_index_getAll Pending (pendingUploads w)) + 2) (Resume 0)) w
         = processQueue env w"
proof -
  let ?us = "idb_index_getAll Pending (pendingUploads w)"
  let ?w1 = "getDB (w\<lparr>isProcessing := True\<rparr>)"
  have 1: "step env CallProcessQueue w = w\<lparr>isProcessing := True, drains := [Starting]\<rparr>"
    using assms by (simp add: processQueue_call_def)
  have 2: "step env (Resume 0) (w\<lparr>isProcessing := True, drains := [Starting]\<rparr>)
             = ?w1\<lparr>drains := [Iterating ?us]\<rparr>"
    by (simp add: getDB_def db_getByIndex_def Let_def)
  have "run env (CallProcessQueue # replicate (2 * length ?us + 2) (Resume 0)) w
          = run env (replicate (2 * length ?us + 1) (Resume 0)) (?w1\<lparr>drains := [Iterating ?us]\<rparr>)"
    using 1 2 by (simp add: run_def)
  also have "\<dots> = (fold (\<lambda>upload w2. snd (processUpload env upload w2)) ?us
                       (?w1\<lparr>drains := [Iterating ?us]\<rparr>))\<lparr>isProcessing := False, drains := []\<rparr>"
    by (rule run_iterating) simp
  also have "\<dots> = (fold (\<lambda>upload w2. snd (processUpload env upload w2)) ?us ?w1)
                       \<lparr>isProcessing := False, drains := []\<rparr>"
    by (simp add: fold_processUpload_drains)
  also have "\<dots> = (fold (\<lambda>upload w2. snd (processUpload env upload w2)) ?us ?w1)
                       \<lparr>isProcessing := False\<rparr>"
    by (rule drains_noop) (simp add: fold_processUpload_keeps_drains getDB_def assms(3))
  also have "\<dots> = processQueue env w"
    using assms by (simp add: processQueue_def Let_def db_getByIndex_def getDB_def)
  finally show ?thesis .
qed


end
